theory Spec2Isabelle
  imports Main "HOL-Library.Word"
begin

unbundle bit_operations_syntax

section \<open>Machine integers and byte buffers\<close>

text \<open>
  The kernel is a 32-bit freestanding C program. \<open>uint8_t\<close>, \<open>uint16_t\<close> and
  \<open>uint32_t\<close> (also \<open>size_t\<close>) are words of that width, so every \<open>+\<close>, \<open>-\<close> and
  \<open>*\<close> below wraps as the C arithmetic does. A buffer (\<open>uint8_t*\<close>, \<open>void*\<close>) is the
  list of its bytes. C gives no meaning to an access outside a buffer; the helpers below
  touch only the bytes that exist: a read outside yields 0 and a write outside is dropped.
\<close>

type_synonym u8 = "8 word"
type_synonym u16 = "16 word"
type_synonym u32 = "32 word"

definition rd8 :: "u8 list \<Rightarrow> nat \<Rightarrow> u8" where
  "rd8 buf off = (if off < length buf then buf ! off else 0)"

definition rd_bytes :: "u8 list \<Rightarrow> nat \<Rightarrow> nat \<Rightarrow> u8 list" where
  "rd_bytes buf off n = take n (drop off buf)"

definition wr_bytes :: "u8 list \<Rightarrow> nat \<Rightarrow> u8 list \<Rightarrow> u8 list" where
  "wr_bytes buf off bs = take (length buf) (take off buf @ bs @ drop (off + length bs) buf)"

text \<open>\<open>memcpy_local(dest + doff, src, n)\<close>: the loop \<open>d[i] = s[i]\<close> for \<open>i < n\<close>.\<close>

definition memcpy_local :: "u8 list \<Rightarrow> nat \<Rightarrow> u8 list \<Rightarrow> nat \<Rightarrow> u8 list" where
  "memcpy_local dest doff src n = wr_bytes dest doff (take n src)"

text \<open>\<open>memset_local(dest, c, n)\<close> on a buffer of at least \<open>n\<close> bytes.\<close>

definition memset_local :: "u8 list \<Rightarrow> u8 \<Rightarrow> nat \<Rightarrow> u8 list" where
  "memset_local dest c n = wr_bytes dest 0 (replicate n c)"

text \<open>Little-endian scalars, as the packed structs lie on an x86 disk image.\<close>

definition enc16 :: "u16 \<Rightarrow> u8 list" where
  "enc16 w = [ucast w, ucast (drop_bit 8 w)]"

definition enc32 :: "u32 \<Rightarrow> u8 list" where
  "enc32 w = [ucast w, ucast (drop_bit 8 w), ucast (drop_bit 16 w), ucast (drop_bit 24 w)]"

definition le16 :: "u8 list \<Rightarrow> nat \<Rightarrow> u16" where
  "le16 buf off = ucast (rd8 buf off) OR push_bit 8 (ucast (rd8 buf (off + 1)))"

definition le32 :: "u8 list \<Rightarrow> nat \<Rightarrow> u32" where
  "le32 buf off = ucast (rd8 buf off) OR push_bit 8 (ucast (rd8 buf (off + 1)))
       OR push_bit 16 (ucast (rd8 buf (off + 2))) OR push_bit 24 (ucast (rd8 buf (off + 3)))"

subsection \<open>C strings\<close>

text \<open>
  A \<open>const char*\<close> argument is the list of the bytes it points to; the string ends at the
  first NUL byte or at the end of the list. \<open>char\<close> is signed on this target, which only
  shows in the sign of what \<open>strcmp_local\<close> returns.
\<close>

fun strlen_nat :: "u8 list \<Rightarrow> nat" where
  "strlen_nat [] = 0"
| "strlen_nat (c # cs) = (if c = 0 then 0 else Suc (strlen_nat cs))"

definition strlen_local :: "u8 list \<Rightarrow> u32" where
  "strlen_local s = of_nat (strlen_nat s)"

fun strcmp_local :: "u8 list \<Rightarrow> u8 list \<Rightarrow> int" where
  "strcmp_local [] [] = 0"
| "strcmp_local [] (b # bs) = 0 - sint b"
| "strcmp_local (a # as) [] = sint a"
| "strcmp_local (a # as) (b # bs) =
     (if a \<noteq> 0 \<and> b \<noteq> 0 \<and> a = b then strcmp_local as bs else sint a - sint b)"

text \<open>\<open>strcpy_local\<close> yields the bytes before the terminator.\<close>

fun strcpy_local :: "u8 list \<Rightarrow> u8 list" where
  "strcpy_local [] = []"
| "strcpy_local (c # cs) = (if c = 0 then [] else c # strcpy_local cs)"

section \<open>The RAM-backed block device (ramdisk.c)\<close>

record ramdisk_data =
  data :: "u8 list"
  rd_size :: u32
  block_count :: u32

definition RAMDISK_BLOCK_SIZE :: u32 where
  "RAMDISK_BLOCK_SIZE = 512"

text \<open>
  \<open>ramdisk_read\<close> returns the status and the bytes copied into the caller's buffer;
  \<open>ramdisk_write\<close> returns the status and the device afterwards. The two range tests and
  the offset and byte count are computed in \<open>uint32_t\<close>, as in the source.
\<close>

definition ramdisk_read :: "ramdisk_data \<Rightarrow> u32 \<Rightarrow> u32 \<Rightarrow> int \<times> u8 list" where
  "ramdisk_read ramdisk block count =
     (if block \<ge> block_count ramdisk then (-1, [])
      else if block + count > block_count ramdisk then (-1, [])
      else let offset = block * RAMDISK_BLOCK_SIZE;
               bytes = count * RAMDISK_BLOCK_SIZE
           in (0, rd_bytes (data ramdisk) (unat offset) (unat bytes)))"

definition ramdisk_write :: "ramdisk_data \<Rightarrow> u32 \<Rightarrow> u32 \<Rightarrow> u8 list \<Rightarrow> int \<times> ramdisk_data" where
  "ramdisk_write ramdisk block count buffer =
     (if block \<ge> block_count ramdisk then (-1, ramdisk)
      else if block + count > block_count ramdisk then (-1, ramdisk)
      else let offset = block * RAMDISK_BLOCK_SIZE;
               bytes = count * RAMDISK_BLOCK_SIZE
           in (0, ramdisk\<lparr>data := memcpy_local (data ramdisk) (unat offset) buffer (unat bytes)\<rparr>))"

text \<open>
  The range a request names, as a set of block numbers, and what it means for the
  request to lie inside the device.
\<close>

definition request_in_range :: "ramdisk_data \<Rightarrow> u32 \<Rightarrow> u32 \<Rightarrow> bool" where
  "request_in_range ramdisk block count = (unat block + unat count \<le> unat (block_count ramdisk))"


section \<open>The ext2 on-disk structures (ext2.h)\<close>

record ext2_superblock =
  s_inodes_count :: u32
  s_blocks_count :: u32
  s_r_blocks_count :: u32
  s_free_blocks_count :: u32
  s_free_inodes_count :: u32
  s_first_data_block :: u32
  s_log_block_size :: u32
  s_log_frag_size :: u32
  s_blocks_per_group :: u32
  s_frags_per_group :: u32
  s_inodes_per_group :: u32
  s_mtime :: u32
  s_wtime :: u32
  s_mnt_count :: u16
  s_max_mnt_count :: u16
  s_magic :: u16
  s_state :: u16
  s_errors :: u16
  s_minor_rev_level :: u16
  s_lastcheck :: u32
  s_checkinterval :: u32
  s_creator_os :: u32
  s_rev_level :: u32
  s_def_resuid :: u16
  s_def_resgid :: u16

record ext2_block_group_desc =
  bg_block_bitmap :: u32
  bg_inode_bitmap :: u32
  bg_inode_table :: u32
  bg_free_blocks_count :: u16
  bg_free_inodes_count :: u16
  bg_used_dirs_count :: u16
  bg_pad :: u16

record ext2_inode =
  i_mode :: u16
  i_uid :: u16
  i_size :: u32
  i_atime :: u32
  i_ctime :: u32
  i_mtime :: u32
  i_dtime :: u32
  i_gid :: u16
  i_links_count :: u16
  i_blocks :: u32
  i_flags :: u32
  i_osd1 :: u32
  i_block :: "u32 list"
  i_generation :: u32
  i_file_acl :: u32
  i_dir_acl :: u32
  i_faddr :: u32
  i_osd2 :: "u8 list"

text \<open>\<open>i_block\<close> has 15 entries and \<open>i_osd2\<close> 12 bytes: \<open>sizeof(ext2_inode_t)\<close> is 128.\<close>

definition inode_ok :: "ext2_inode \<Rightarrow> bool" where
  "inode_ok ino = (length (i_block ino) = 15 \<and> length (i_osd2 ino) = 12)"

definition EXT2_S_IFLNK :: u16 where "EXT2_S_IFLNK = 0xA000"
definition EXT2_S_IFREG :: u16 where "EXT2_S_IFREG = 0x8000"
definition EXT2_S_IFDIR :: u16 where "EXT2_S_IFDIR = 0x4000"

definition EXT2_FT_REG_FILE :: u8 where "EXT2_FT_REG_FILE = 1"
definition EXT2_FT_DIR :: u8 where "EXT2_FT_DIR = 2"
definition EXT2_FT_SYMLINK :: u8 where "EXT2_FT_SYMLINK = 7"

definition EXT2_ROOT_INO :: u32 where "EXT2_ROOT_INO = 2"

text \<open>The packed 128-byte image of an inode, field by field at its offset.\<close>

definition encode_inode :: "ext2_inode \<Rightarrow> u8 list" where
  "encode_inode ino =
     enc16 (i_mode ino) @ enc16 (i_uid ino) @ enc32 (i_size ino) @ enc32 (i_atime ino)
     @ enc32 (i_ctime ino) @ enc32 (i_mtime ino) @ enc32 (i_dtime ino) @ enc16 (i_gid ino)
     @ enc16 (i_links_count ino) @ enc32 (i_blocks ino) @ enc32 (i_flags ino)
     @ enc32 (i_osd1 ino) @ concat (map enc32 (i_block ino)) @ enc32 (i_generation ino)
     @ enc32 (i_file_acl ino) @ enc32 (i_dir_acl ino) @ enc32 (i_faddr ino) @ i_osd2 ino"

definition decode_inode :: "u8 list \<Rightarrow> ext2_inode" where
  "decode_inode buf =
     \<lparr> i_mode = le16 buf 0, i_uid = le16 buf 2, i_size = le32 buf 4, i_atime = le32 buf 8,
       i_ctime = le32 buf 12, i_mtime = le32 buf 16, i_dtime = le32 buf 20,
       i_gid = le16 buf 24, i_links_count = le16 buf 26, i_blocks = le32 buf 28,
       i_flags = le32 buf 32, i_osd1 = le32 buf 36,
       i_block = map (\<lambda>k. le32 buf (40 + 4 * k)) [0..<15],
       i_generation = le32 buf 100, i_file_acl = le32 buf 104, i_dir_acl = le32 buf 108,
       i_faddr = le32 buf 112, i_osd2 = map (\<lambda>k. rd8 buf (116 + k)) [0..<12] \<rparr>"

text \<open>\<open>memset_local(&inode, 0, sizeof(ext2_inode_t))\<close>.\<close>

definition zero_inode :: ext2_inode where
  "zero_inode = decode_inode (replicate 128 0)"

section \<open>The mounted filesystem (ext2.h, ext2.c)\<close>

text \<open>
  \<open>ext2_fs_t\<close>. The device pointer is the RAM disk itself: it is the only implementation
  of \<open>blockdev_ops_t\<close> in the repository, and \<open>blockdev_read\<close> and \<open>blockdev_write\<close> only
  forward to it. \<open>block_groups\<close> is the in-memory group descriptor table.
\<close>

record ext2_fs =
  device :: ramdisk_data
  superblock :: ext2_superblock
  block_groups :: "ext2_block_group_desc list"
  block_size :: u32
  blocks_per_group :: u32
  inodes_per_group :: u32
  num_block_groups :: u32

definition blockdev_get_block_size :: "ramdisk_data \<Rightarrow> u32" where
  "blockdev_get_block_size dev = RAMDISK_BLOCK_SIZE"

text \<open>
  \<open>kmalloc\<close> (heap.c) fails for a request of 0 bytes and for one larger than the 512 KiB
  heap less one 12-byte block header; the heap is otherwise taken to have room, since
  every function here frees its buffers before it returns.
\<close>

definition kmalloc_ok :: "u32 \<Rightarrow> bool" where
  "kmalloc_ok n = (n \<noteq> 0 \<and> unat n \<le> 524272)"

text \<open>
  \<open>ext2_read_blocks\<close>: \<open>None\<close> is the return value -1, \<open>Some buf\<close> is 0 with the bytes
  read. \<open>ext2_write_blocks\<close> returns the status and the filesystem afterwards.
\<close>

definition ext2_read_blocks :: "ext2_fs \<Rightarrow> u32 \<Rightarrow> u32 \<Rightarrow> u8 list option" where
  "ext2_read_blocks fs block count =
     (let blocks_per_fs_block = block_size fs div blockdev_get_block_size (device fs);
          device_block = block * blocks_per_fs_block;
          device_count = count * blocks_per_fs_block
      in case ramdisk_read (device fs) device_block device_count of
           (r, buf) \<Rightarrow> if r = 0 then Some buf else None)"

definition ext2_write_blocks :: "ext2_fs \<Rightarrow> u32 \<Rightarrow> u32 \<Rightarrow> u8 list \<Rightarrow> int \<times> ext2_fs" where
  "ext2_write_blocks fs block count buffer =
     (let blocks_per_fs_block = block_size fs div blockdev_get_block_size (device fs);
          device_block = block * blocks_per_fs_block;
          device_count = count * blocks_per_fs_block
      in case ramdisk_write (device fs) device_block device_count buffer of
           (r, dev') \<Rightarrow> (r, fs\<lparr>device := dev'\<rparr>))"

text \<open>
  \<open>ext2_read_inode\<close>: \<open>None\<close> is -1. The group descriptor is read at an index the function
  has checked against \<open>num_block_groups\<close>.
\<close>

definition ext2_read_inode :: "ext2_fs \<Rightarrow> u32 \<Rightarrow> ext2_inode option" where
  "ext2_read_inode fs inode_num =
     (if inode_num = 0 then None
      else let grp = (inode_num - 1) div inodes_per_group fs;
               offset = (inode_num - 1) mod inodes_per_group fs
           in if grp \<ge> num_block_groups fs then None
              else let inode_table_block = bg_inode_table (block_groups fs ! unat grp);
                       inodes_per_block = block_size fs div 128;
                       block_offset = offset div inodes_per_block;
                       inode_offset = offset mod inodes_per_block
                   in if \<not> kmalloc_ok (block_size fs) then None
                      else case ext2_read_blocks fs (inode_table_block + block_offset) 1 of
                             None \<Rightarrow> None
                           | Some block_buffer \<Rightarrow>
                               Some (decode_inode (rd_bytes block_buffer (unat inode_offset * 128) 128)))"

definition ext2_write_inode :: "ext2_fs \<Rightarrow> u32 \<Rightarrow> ext2_inode \<Rightarrow> int \<times> ext2_fs" where
  "ext2_write_inode fs inode_num inode =
     (if inode_num = 0 then (-1, fs)
      else let grp = (inode_num - 1) div inodes_per_group fs;
               offset = (inode_num - 1) mod inodes_per_group fs
           in if grp \<ge> num_block_groups fs then (-1, fs)
              else let inode_table_block = bg_inode_table (block_groups fs ! unat grp);
                       inodes_per_block = block_size fs div 128;
                       block_offset = offset div inodes_per_block;
                       inode_offset = offset mod inodes_per_block
                   in if \<not> kmalloc_ok (block_size fs) then (-1, fs)
                      else case ext2_read_blocks fs (inode_table_block + block_offset) 1 of
                             None \<Rightarrow> (-1, fs)
                           | Some block_buffer \<Rightarrow>
                               ext2_write_blocks fs (inode_table_block + block_offset) 1
                                 (memcpy_local block_buffer (unat inode_offset * 128)
                                    (encode_inode inode) 128))"


subsection \<open>Reading file data\<close>

text \<open>
  \<open>ext2_read_data_block\<close>: direct blocks, then the single indirect block; \<open>None\<close> is -1.
\<close>

definition ext2_read_data_block :: "ext2_fs \<Rightarrow> ext2_inode \<Rightarrow> u32 \<Rightarrow> u8 list option" where
  "ext2_read_data_block fs inode block_index =
     (if block_index < 12 then
        (let block_num = i_block inode ! unat block_index
         in if block_num = 0 then None else ext2_read_blocks fs block_num 1)
      else if block_index < 12 + block_size fs div 4 then
        (let indirect_block = i_block inode ! 12
         in if indirect_block = 0 then None
            else if \<not> kmalloc_ok (block_size fs) then None
            else case ext2_read_blocks fs indirect_block 1 of
                   None \<Rightarrow> None
                 | Some indirect_buffer \<Rightarrow>
                     (let block_num = le32 indirect_buffer (4 * unat (block_index - 12))
                      in if block_num = 0 then None else ext2_read_blocks fs block_num 1))
      else None)"

text \<open>
  Both block loops (\<open>ext2_read_file\<close>, \<open>vfs_write\<close>) advance by the rest of the current
  block or the rest of the request, whichever is less; with a non-zero block size that is
  a positive step that does not pass the end of the request.
\<close>

definition chunk_len :: "u32 \<Rightarrow> u32 \<Rightarrow> u32 \<Rightarrow> u32" where
  "chunk_len bsize block_offset remaining =
     (if bsize - block_offset > remaining then remaining else bsize - block_offset)"

lemma chunk_len_measure:
  assumes "k < n" and "bsize \<noteq> 0"
  shows "unat (n - (k + chunk_len bsize (pos mod bsize) (n - k))) < unat (n - k)"
proof -
  let ?c = "chunk_len bsize (pos mod bsize) (n - k)"
  have lt: "pos mod bsize < bsize"
    using assms(2) by (simp add: word_mod_less_divisor word_neq_0_conv)
  have rem: "0 < unat (n - k)"
    using assms(1) by (simp add: word_less_nat_alt unat_sub word_le_nat_alt)
  have "0 < unat (bsize - pos mod bsize)"
    using lt by (simp add: word_less_nat_alt unat_sub word_le_nat_alt)
  then have pos: "0 < unat ?c"
    using rem by (simp add: chunk_len_def)
  have le: "?c \<le> n - k"
    by (simp add: chunk_len_def not_less)
  have "n - (k + ?c) = (n - k) - ?c" by simp
  then have "unat (n - (k + ?c)) = unat (n - k) - unat ?c"
    using le by (simp only: unat_sub)
  then show ?thesis using pos rem by simp
qed

text \<open>
  The loop of \<open>ext2_read_file\<close>. \<open>out\<close> holds the first \<open>bytes_read\<close> bytes of the output
  buffer. A block size of 0 never reaches the recursive call: C traps on the division,
  and here the buffer allocation fails.
\<close>

function read_file_loop ::
  "ext2_fs \<Rightarrow> ext2_inode \<Rightarrow> u32 \<Rightarrow> u32 \<Rightarrow> u32 \<Rightarrow> u8 list \<Rightarrow> u8 list option" where
  "read_file_loop fs inode offset size' bytes_read out =
     (if bytes_read < size' then
        (if \<not> kmalloc_ok (block_size fs) then None
         else case ext2_read_data_block fs inode ((offset + bytes_read) div block_size fs) of
                None \<Rightarrow> None
              | Some block_buffer \<Rightarrow>
                  read_file_loop fs inode offset size'
                    (bytes_read + chunk_len (block_size fs) ((offset + bytes_read) mod block_size fs)
                                    (size' - bytes_read))
                    (out @ rd_bytes block_buffer (unat ((offset + bytes_read) mod block_size fs))
                             (unat (chunk_len (block_size fs)
                                      ((offset + bytes_read) mod block_size fs)
                                      (size' - bytes_read)))))
      else Some out)"
  by pat_completeness auto
termination
  by (relation "measure (\<lambda>(fs, inode, offset, size', bytes_read, out). unat (size' - bytes_read))")
     (auto simp: kmalloc_ok_def intro: chunk_len_measure)

text \<open>
  \<open>ext2_read_file\<close> returns the \<open>int\<close> it returns in C and the bytes copied out. The sum
  \<open>offset + size\<close> is a \<open>uint32_t\<close> sum.
\<close>

definition ext2_read_file :: "ext2_fs \<Rightarrow> ext2_inode \<Rightarrow> u32 \<Rightarrow> u32 \<Rightarrow> int \<times> u8 list" where
  "ext2_read_file fs inode offset size' =
     (if offset \<ge> i_size inode then (0, [])
      else let file_size = i_size inode;
               size'' = (if offset + size' > file_size then file_size - offset else size')
           in case read_file_loop fs inode offset size'' 0 [] of
                None \<Rightarrow> (-1, [])
              | Some out \<Rightarrow> (sint size'', out))"

subsection \<open>Directory entries\<close>

text \<open>
  \<open>ext2_dir_entry_t\<close> overlaid on a buffer at a byte offset: inode (4 bytes), rec_len (2),
  name_len (1), file_type (1), then the name.
\<close>

definition de_inode :: "u8 list \<Rightarrow> nat \<Rightarrow> u32" where
  "de_inode buf off = le32 buf off"

definition de_rec_len :: "u8 list \<Rightarrow> nat \<Rightarrow> u16" where
  "de_rec_len buf off = le16 buf (off + 4)"

definition de_name_len :: "u8 list \<Rightarrow> nat \<Rightarrow> u8" where
  "de_name_len buf off = rd8 buf (off + 6)"

definition de_file_type :: "u8 list \<Rightarrow> nat \<Rightarrow> u8" where
  "de_file_type buf off = rd8 buf (off + 7)"

definition de_name :: "u8 list \<Rightarrow> nat \<Rightarrow> u8 list" where
  "de_name buf off = rd_bytes buf (off + 8) (unat (de_name_len buf off))"

text \<open>
  The walk of \<open>ext2_find_dir_entry\<close>. The offset stays below \<open>dir_size\<close>, which the
  allocation of the directory buffer has bounded, so the \<open>uint32_t\<close> sum
  \<open>offset + rec_len\<close> does not wrap and the offset is a natural number here. The name is
  copied into \<open>entry_name\<close> and terminated before it is compared.
\<close>

function find_dir_entry_loop :: "u8 list \<Rightarrow> nat \<Rightarrow> u8 list \<Rightarrow> nat \<Rightarrow> u32 option" where
  "find_dir_entry_loop dir_buffer dir_size name offset =
     (if offset < dir_size then
        (if de_rec_len dir_buffer offset = 0 then None
         else if de_inode dir_buffer offset \<noteq> 0
                 \<and> ucast (de_name_len dir_buffer offset) = strlen_local name
                 \<and> strcmp_local (de_name dir_buffer offset @ [0]) name = 0
              then Some (de_inode dir_buffer offset)
              else find_dir_entry_loop dir_buffer dir_size name
                     (offset + unat (de_rec_len dir_buffer offset)))
      else None)"
  by pat_completeness auto
termination
  by (relation "measure (\<lambda>(dir_buffer, dir_size, name, offset). dir_size - offset)")
     (auto simp: unat_gt_0 intro: diff_less_mono2)

definition ext2_find_dir_entry :: "ext2_fs \<Rightarrow> ext2_inode \<Rightarrow> u8 list \<Rightarrow> u32 option" where
  "ext2_find_dir_entry fs dir_inode name =
     (if i_mode dir_inode AND EXT2_S_IFDIR = 0 then None
      else let dir_size = i_size dir_inode
           in if \<not> kmalloc_ok dir_size then None
              else case ext2_read_file fs dir_inode 0 dir_size of
                     (r, dir_buffer) \<Rightarrow>
                       if r \<noteq> sint dir_size then None
                       else find_dir_entry_loop dir_buffer (unat dir_size) name 0)"

text \<open>\<open>ext2_is_dir_empty\<close>: the count of entries other than "." and "..".\<close>

function is_dir_empty_loop :: "u8 list \<Rightarrow> nat \<Rightarrow> nat \<Rightarrow> nat \<Rightarrow> nat" where
  "is_dir_empty_loop dir_buffer dir_size offset entry_count =
     (if offset < dir_size then
        (if de_rec_len dir_buffer offset = 0 then entry_count
         else is_dir_empty_loop dir_buffer dir_size
                (offset + unat (de_rec_len dir_buffer offset))
                (if de_inode dir_buffer offset \<noteq> 0
                    \<and> strcmp_local (de_name dir_buffer offset @ [0]) [0x2E] \<noteq> 0
                    \<and> strcmp_local (de_name dir_buffer offset @ [0]) [0x2E, 0x2E] \<noteq> 0
                 then entry_count + 1 else entry_count))
      else entry_count)"
  by pat_completeness auto
termination
  by (relation "measure (\<lambda>(dir_buffer, dir_size, offset, entry_count). dir_size - offset)")
     (auto simp: unat_gt_0 intro: diff_less_mono2)

definition ext2_is_dir_empty :: "ext2_fs \<Rightarrow> ext2_inode \<Rightarrow> int" where
  "ext2_is_dir_empty fs dir_inode =
     (if i_mode dir_inode AND EXT2_S_IFDIR = 0 then -1
      else let dir_size = i_size dir_inode
           in if \<not> kmalloc_ok dir_size then -1
              else case ext2_read_file fs dir_inode 0 dir_size of
                     (r, dir_buffer) \<Rightarrow>
                       if r \<noteq> sint dir_size then -1
                       else if is_dir_empty_loop dir_buffer (unat dir_size) 0 0 = 0 then 1 else 0)"

text \<open>
  \<open>ext2_read_symlink\<close> with \<open>max_len\<close> the size of the caller's buffer; the result is the
  buffer up to the terminator it writes. \<open>(char*)inode->i_block\<close> is the 60-byte image of
  the block pointers.
\<close>

definition ext2_read_symlink :: "ext2_fs \<Rightarrow> ext2_inode \<Rightarrow> u32 \<Rightarrow> u8 list option" where
  "ext2_read_symlink fs inode max_len =
     (if max_len = 0 then None
      else if i_mode inode AND EXT2_S_IFLNK \<noteq> EXT2_S_IFLNK then None
      else let link_len = (if i_size inode \<ge> max_len then max_len - 1 else i_size inode)
           in if link_len \<le> 60
              then Some (rd_bytes (concat (map enc32 (i_block inode))) 0 (unat link_len))
              else case ext2_read_file fs inode 0 link_len of
                     (r, buffer) \<Rightarrow> if r \<noteq> sint link_len then None else Some buffer)"

subsection \<open>Path resolution\<close>

text \<open>
  The loop of \<open>ext2_path_to_inode\<close> over the rest of the path: \<open>component\<close> is the buffer
  filled so far, \<open>comp_idx\<close> its length. 0 is the failure value.
\<close>

definition lookup_component :: "ext2_fs \<Rightarrow> u32 \<Rightarrow> u8 list \<Rightarrow> u32 option" where
  "lookup_component fs current_inode component =
     (case ext2_read_inode fs current_inode of
        None \<Rightarrow> None
      | Some dir_inode \<Rightarrow> ext2_find_dir_entry fs dir_inode component)"

fun path_loop :: "ext2_fs \<Rightarrow> u8 list \<Rightarrow> u32 \<Rightarrow> u8 list \<Rightarrow> u32 option" where
  "path_loop fs [] current_inode component =
     (if component \<noteq> [] then lookup_component fs current_inode component
      else Some current_inode)"
| "path_loop fs (c # path) current_inode component =
     (if c = 0 then
        (if component \<noteq> [] then lookup_component fs current_inode component
         else Some current_inode)
      else if c = 0x2F then
        (if component \<noteq> [] then
           (case lookup_component fs current_inode component of
              None \<Rightarrow> None
            | Some next_inode \<Rightarrow> path_loop fs path next_inode [])
         else path_loop fs path current_inode [])
      else path_loop fs path current_inode
             (if length component < 255 then component @ [c] else component))"

definition skip_leading_slash :: "u8 list \<Rightarrow> u8 list" where
  "skip_leading_slash path = (case path of [] \<Rightarrow> [] | c # cs \<Rightarrow> if c = 0x2F then cs else path)"

definition ext2_path_to_inode :: "ext2_fs \<Rightarrow> u8 list \<Rightarrow> u32" where
  "ext2_path_to_inode fs path =
     (if strcmp_local path [0x2F] = 0 then EXT2_ROOT_INO
      else case path_loop fs (skip_leading_slash path) EXT2_ROOT_INO [] of
             None \<Rightarrow> 0
           | Some n \<Rightarrow> n)"


subsection \<open>Bitmap allocators\<close>

text \<open>
  The allocation bitmaps are byte-packed: bit \<open>i\<close> is bit \<open>i mod 8\<close> of byte \<open>i div 8\<close>.
\<close>

definition bitmap_test :: "u8 list \<Rightarrow> nat \<Rightarrow> bool" where
  "bitmap_test bitmap i = (rd8 bitmap (i div 8) AND push_bit (i mod 8) 1 \<noteq> 0)"

definition bitmap_set :: "u8 list \<Rightarrow> nat \<Rightarrow> u8 list" where
  "bitmap_set bitmap i =
     wr_bytes bitmap (i div 8) [rd8 bitmap (i div 8) OR push_bit (i mod 8) 1]"

definition bitmap_clear :: "u8 list \<Rightarrow> nat \<Rightarrow> u8 list" where
  "bitmap_clear bitmap i =
     wr_bytes bitmap (i div 8) [rd8 bitmap (i div 8) AND NOT (push_bit (i mod 8) 1)]"

text \<open>
  The in-memory counters the allocators keep: the group descriptor's and the
  superblock's free counts. Nothing writes them back to the device.
\<close>

definition dec_free_blocks :: "ext2_fs \<Rightarrow> nat \<Rightarrow> ext2_fs" where
  "dec_free_blocks fs grp =
     fs\<lparr>block_groups := (block_groups fs)[grp := (block_groups fs ! grp)
            \<lparr>bg_free_blocks_count := bg_free_blocks_count (block_groups fs ! grp) - 1\<rparr>],
        superblock := (superblock fs)
            \<lparr>s_free_blocks_count := s_free_blocks_count (superblock fs) - 1\<rparr>\<rparr>"

definition inc_free_blocks :: "ext2_fs \<Rightarrow> nat \<Rightarrow> ext2_fs" where
  "inc_free_blocks fs grp =
     fs\<lparr>block_groups := (block_groups fs)[grp := (block_groups fs ! grp)
            \<lparr>bg_free_blocks_count := bg_free_blocks_count (block_groups fs ! grp) + 1\<rparr>],
        superblock := (superblock fs)
            \<lparr>s_free_blocks_count := s_free_blocks_count (superblock fs) + 1\<rparr>\<rparr>"

definition dec_free_inodes :: "ext2_fs \<Rightarrow> nat \<Rightarrow> ext2_fs" where
  "dec_free_inodes fs grp =
     fs\<lparr>block_groups := (block_groups fs)[grp := (block_groups fs ! grp)
            \<lparr>bg_free_inodes_count := bg_free_inodes_count (block_groups fs ! grp) - 1\<rparr>],
        superblock := (superblock fs)
            \<lparr>s_free_inodes_count := s_free_inodes_count (superblock fs) - 1\<rparr>\<rparr>"

definition inc_free_inodes :: "ext2_fs \<Rightarrow> nat \<Rightarrow> ext2_fs" where
  "inc_free_inodes fs grp =
     fs\<lparr>block_groups := (block_groups fs)[grp := (block_groups fs ! grp)
            \<lparr>bg_free_inodes_count := bg_free_inodes_count (block_groups fs ! grp) + 1\<rparr>],
        superblock := (superblock fs)
            \<lparr>s_free_inodes_count := s_free_inodes_count (superblock fs) + 1\<rparr>\<rparr>"

text \<open>
  The inner loop of \<open>ext2_alloc_block\<close> over the bits of one group. When the bitmap write
  fails the source's \<open>continue\<close> resumes this inner loop with the bit left set in the
  buffer. \<open>None\<close>: the loop ran to its end.
\<close>

function alloc_block_scan :: "ext2_fs \<Rightarrow> nat \<Rightarrow> u8 list \<Rightarrow> nat \<Rightarrow> (u32 \<times> ext2_fs) option" where
  "alloc_block_scan fs grp bitmap i =
     (if i < unat (blocks_per_group fs) then
        (if \<not> bitmap_test bitmap i then
           (case ext2_write_blocks fs (bg_block_bitmap (block_groups fs ! grp)) 1
                   (bitmap_set bitmap i) of
              (r, fs') \<Rightarrow>
                if r \<noteq> 0 then alloc_block_scan fs grp (bitmap_set bitmap i) (i + 1)
                else Some (of_nat grp * blocks_per_group fs + of_nat i
                             + s_first_data_block (superblock fs),
                           dec_free_blocks fs' grp))
         else alloc_block_scan fs grp bitmap (i + 1))
      else None)"
  by pat_completeness auto
termination
  by (relation "measure (\<lambda>(fs, grp, bitmap, i). unat (blocks_per_group fs) - i)") auto

function alloc_block_groups :: "ext2_fs \<Rightarrow> nat \<Rightarrow> u32 \<times> ext2_fs" where
  "alloc_block_groups fs grp =
     (if grp < unat (num_block_groups fs) then
        (if \<not> kmalloc_ok (block_size fs) then alloc_block_groups fs (grp + 1)
         else case ext2_read_blocks fs (bg_block_bitmap (block_groups fs ! grp)) 1 of
                None \<Rightarrow> alloc_block_groups fs (grp + 1)
              | Some bitmap \<Rightarrow>
                  (case alloc_block_scan fs grp bitmap 0 of
                     Some res \<Rightarrow> res
                   | None \<Rightarrow> alloc_block_groups fs (grp + 1)))
      else (0, fs))"
  by pat_completeness auto
termination
  by (relation "measure (\<lambda>(fs, grp). unat (num_block_groups fs) - grp)") auto

definition ext2_alloc_block :: "ext2_fs \<Rightarrow> u32 \<times> ext2_fs" where
  "ext2_alloc_block fs = alloc_block_groups fs 0"

text \<open>
  \<open>ext2_free_block\<close> and \<open>ext2_free_inode\<close> index the descriptor table with a group
  number they do not check.
\<close>

definition ext2_free_block :: "ext2_fs \<Rightarrow> u32 \<Rightarrow> int \<times> ext2_fs" where
  "ext2_free_block fs block_num =
     (if block_num < s_first_data_block (superblock fs) then (-1, fs)
      else let rel = block_num - s_first_data_block (superblock fs);
               grp = rel div blocks_per_group fs;
               index = rel mod blocks_per_group fs
           in if \<not> kmalloc_ok (block_size fs) then (-1, fs)
              else case ext2_read_blocks fs (bg_block_bitmap (block_groups fs ! unat grp)) 1 of
                     None \<Rightarrow> (-1, fs)
                   | Some bitmap \<Rightarrow>
                       (case ext2_write_blocks fs (bg_block_bitmap (block_groups fs ! unat grp)) 1
                               (bitmap_clear bitmap (unat index)) of
                          (res, fs') \<Rightarrow>
                            if res = 0 then (res, inc_free_blocks fs' (unat grp))
                            else (res, fs')))"

function alloc_inode_scan :: "ext2_fs \<Rightarrow> nat \<Rightarrow> u8 list \<Rightarrow> nat \<Rightarrow> (u32 \<times> ext2_fs) option" where
  "alloc_inode_scan fs grp bitmap i =
     (if i < unat (inodes_per_group fs) then
        (if \<not> bitmap_test bitmap i then
           (case ext2_write_blocks fs (bg_inode_bitmap (block_groups fs ! grp)) 1
                   (bitmap_set bitmap i) of
              (r, fs') \<Rightarrow>
                if r \<noteq> 0 then alloc_inode_scan fs grp (bitmap_set bitmap i) (i + 1)
                else Some (of_nat grp * inodes_per_group fs + of_nat i + 1,
                           dec_free_inodes fs' grp))
         else alloc_inode_scan fs grp bitmap (i + 1))
      else None)"
  by pat_completeness auto
termination
  by (relation "measure (\<lambda>(fs, grp, bitmap, i). unat (inodes_per_group fs) - i)") auto

function alloc_inode_groups :: "ext2_fs \<Rightarrow> nat \<Rightarrow> u32 \<times> ext2_fs" where
  "alloc_inode_groups fs grp =
     (if grp < unat (num_block_groups fs) then
        (if \<not> kmalloc_ok (block_size fs) then alloc_inode_groups fs (grp + 1)
         else case ext2_read_blocks fs (bg_inode_bitmap (block_groups fs ! grp)) 1 of
                None \<Rightarrow> alloc_inode_groups fs (grp + 1)
              | Some bitmap \<Rightarrow>
                  (case alloc_inode_scan fs grp bitmap 0 of
                     Some res \<Rightarrow> res
                   | None \<Rightarrow> alloc_inode_groups fs (grp + 1)))
      else (0, fs))"
  by pat_completeness auto
termination
  by (relation "measure (\<lambda>(fs, grp). unat (num_block_groups fs) - grp)") auto

definition ext2_alloc_inode :: "ext2_fs \<Rightarrow> u32 \<times> ext2_fs" where
  "ext2_alloc_inode fs = alloc_inode_groups fs 0"

definition ext2_free_inode :: "ext2_fs \<Rightarrow> u32 \<Rightarrow> int \<times> ext2_fs" where
  "ext2_free_inode fs inode_num =
     (if inode_num = 0 then (-1, fs)
      else let grp = (inode_num - 1) div inodes_per_group fs;
               index = (inode_num - 1) mod inodes_per_group fs
           in if \<not> kmalloc_ok (block_size fs) then (-1, fs)
              else case ext2_read_blocks fs (bg_inode_bitmap (block_groups fs ! unat grp)) 1 of
                     None \<Rightarrow> (-1, fs)
                   | Some bitmap \<Rightarrow>
                       (case ext2_write_blocks fs (bg_inode_bitmap (block_groups fs ! unat grp)) 1
                               (bitmap_clear bitmap (unat index)) of
                          (res, fs') \<Rightarrow>
                            if res = 0 then (res, inc_free_inodes fs' (unat grp))
                            else (res, fs')))"

subsection \<open>Adding and removing directory entries\<close>

text \<open>
  The fields of a new entry written at \<open>off\<close>: \<open>name_len\<close> and \<open>rec_len\<close> are narrowed to
  the width of their fields, and \<open>name_len\<close> bytes of the name follow the header.
\<close>

definition put_dir_entry :: "u8 list \<Rightarrow> nat \<Rightarrow> u32 \<Rightarrow> u16 \<Rightarrow> u32 \<Rightarrow> u8 \<Rightarrow> u8 list \<Rightarrow> u8 list" where
  "put_dir_entry block off ino rec_len name_len type name =
     memcpy_local
       (wr_bytes block off (enc32 ino @ enc16 rec_len @ [ucast name_len, type]))
       (off + 8) name (unat name_len)"

text \<open>\<open>8 + ((entry->name_len + 3) & ~3)\<close>, computed in \<open>int\<close> and stored in a \<open>uint32_t\<close>.\<close>

definition actual_len :: "u8 \<Rightarrow> u32" where
  "actual_len name_len = 8 + ((ucast name_len + 3) AND NOT 3)"

text \<open>
  The scan of one block in \<open>ext2_add_dir_entry\<close>: \<open>Some block'\<close> is the block with the new
  entry placed after the first entry whose \<open>rec_len\<close> exceeds its \<open>actual_len\<close>; \<open>None\<close>
  when the scan leaves the block without placing it.
\<close>

function add_dir_entry_scan ::
  "u8 list \<Rightarrow> nat \<Rightarrow> u32 \<Rightarrow> u32 \<Rightarrow> u8 \<Rightarrow> u8 list \<Rightarrow> nat \<Rightarrow> u8 list option" where
  "add_dir_entry_scan block bsize new_inode_num name_len type name offset =
     (if offset < bsize then
        (if de_rec_len block offset = 0 then None
         else if ucast (de_rec_len block offset) > actual_len (de_name_len block offset) then
           (let alen = actual_len (de_name_len block offset);
                new_rec_len = (ucast (ucast (de_rec_len block offset) - alen) :: u16)
            in Some (put_dir_entry (wr_bytes block (offset + 4) (enc16 (ucast alen)))
                       (offset + unat alen) new_inode_num new_rec_len name_len type name))
         else add_dir_entry_scan block bsize new_inode_num name_len type name
                (offset + unat (de_rec_len block offset)))
      else None)"
  by pat_completeness auto
termination
  by (relation "measure (\<lambda>(block, bsize, new_inode_num, name_len, type, name, offset). bsize - offset)")
     (auto simp: unat_gt_0 intro: diff_less_mono2)

text \<open>
  The \<open>for\<close> loop over the directory's blocks. A block that cannot be read is skipped; the
  first block with slack is rewritten in place through \<open>i_block[b]\<close> and ends the call.
\<close>

definition i_block_at :: "ext2_inode \<Rightarrow> nat \<Rightarrow> u32" where
  "i_block_at inode b = (if b < length (i_block inode) then i_block inode ! b else 0)"

function add_dir_entry_blocks ::
  "ext2_fs \<Rightarrow> ext2_inode \<Rightarrow> nat \<Rightarrow> u32 \<Rightarrow> u32 \<Rightarrow> u8 \<Rightarrow> u8 list \<Rightarrow> nat \<Rightarrow> (int \<times> ext2_fs) option" where
  "add_dir_entry_blocks fs dir_inode nblocks new_inode_num name_len type name b =
     (if b < nblocks then
        (case ext2_read_data_block fs dir_inode (of_nat b) of
           None \<Rightarrow> add_dir_entry_blocks fs dir_inode nblocks new_inode_num name_len type name (b + 1)
         | Some block \<Rightarrow>
             (case add_dir_entry_scan block (unat (block_size fs)) new_inode_num name_len type name 0 of
                Some block' \<Rightarrow> Some (ext2_write_blocks fs (i_block_at dir_inode b) 1 block')
              | None \<Rightarrow>
                  add_dir_entry_blocks fs dir_inode nblocks new_inode_num name_len type name (b + 1)))
      else None)"
  by pat_completeness auto
termination
  by (relation "measure (\<lambda>(fs, dir_inode, nblocks, new_inode_num, name_len, type, name, b).
                            nblocks - b)") auto

text \<open>The first free slot among \<open>i_block[0..11]\<close> takes the new block, if there is one.\<close>

function assign_first_free :: "u32 list \<Rightarrow> nat \<Rightarrow> u32 \<Rightarrow> u32 list" where
  "assign_first_free blocks i new_block =
     (if i < 12 then
        (if i < length blocks \<and> blocks ! i = 0 then blocks[i := new_block]
         else assign_first_free blocks (i + 1) new_block)
      else blocks)"
  by pat_completeness auto
termination
  by (relation "measure (\<lambda>(blocks, i, new_block). 12 - i)") auto

text \<open>
  \<open>ext2_add_dir_entry\<close> returns its status, the filesystem and the caller's copy of the
  directory inode, which the new-block path updates.
\<close>

definition ext2_add_dir_entry ::
  "ext2_fs \<Rightarrow> ext2_inode \<Rightarrow> u32 \<Rightarrow> u32 \<Rightarrow> u8 list \<Rightarrow> u8 \<Rightarrow> int \<times> ext2_fs \<times> ext2_inode" where
  "ext2_add_dir_entry fs dir_inode dir_inode_num new_inode_num name type =
     (if new_inode_num = 0 then (-1, fs, dir_inode)
      else let name_len = strlen_local name
           in if name_len = 0 \<or> name_len > 255 then (-1, fs, dir_inode)
              else let dir_size = i_size dir_inode;
                       nblocks = (dir_size + block_size fs - 1) div block_size fs
                   in if \<not> kmalloc_ok (block_size fs) then (-1, fs, dir_inode)
                      else case add_dir_entry_blocks fs dir_inode (unat nblocks)
                                  new_inode_num name_len type name 0 of
                             Some (res, fs') \<Rightarrow> (res, fs', dir_inode)
                           | None \<Rightarrow>
                               (case ext2_alloc_block fs of
                                  (new_block, fs1) \<Rightarrow>
                                    if new_block = 0 then (-1, fs1, dir_inode)
                                    else let block = put_dir_entry
                                                       (replicate (unat (block_size fs)) 0) 0
                                                       new_inode_num (ucast (block_size fs))
                                                       name_len type name;
                                             dir_inode' = dir_inode
                                               \<lparr>i_block := assign_first_free (i_block dir_inode) 0 new_block,
                                                i_size := i_size dir_inode + block_size fs\<rparr>
                                         in case ext2_write_blocks fs1 new_block 1 block of
                                              (res, fs2) \<Rightarrow>
                                                (res, snd (ext2_write_inode fs2 dir_inode_num dir_inode'),
                                                 dir_inode')))"

text \<open>
  The scan of one block in \<open>ext2_remove_dir_entry\<close>. The name is compared with
  \<open>strcmp_local\<close> against the bytes that follow the header in the block, which no
  terminator ends but the next zero byte. \<open>prev\<close> is the offset of the previous entry.
\<close>

function remove_dir_entry_scan ::
  "u8 list \<Rightarrow> nat \<Rightarrow> u32 \<Rightarrow> u8 list \<Rightarrow> nat \<Rightarrow> nat option \<Rightarrow> u8 list option" where
  "remove_dir_entry_scan block bsize name_len name offset prev =
     (if offset < bsize then
        (if de_rec_len block offset = 0 then None
         else if de_inode block offset \<noteq> 0
                 \<and> ucast (de_name_len block offset) = name_len
                 \<and> strcmp_local (drop (offset + 8) block) name = 0
              then (case prev of
                      Some prev_offset \<Rightarrow>
                        Some (wr_bytes block (prev_offset + 4)
                                (enc16 (de_rec_len block prev_offset + de_rec_len block offset)))
                    | None \<Rightarrow> Some (wr_bytes block offset (enc32 0)))
              else remove_dir_entry_scan block bsize name_len name
                     (offset + unat (de_rec_len block offset)) (Some offset))
      else None)"
  by pat_completeness auto
termination
  by (relation "measure (\<lambda>(block, bsize, name_len, name, offset, prev). bsize - offset)")
     (auto simp: unat_gt_0 intro: diff_less_mono2)

function remove_dir_entry_blocks ::
  "ext2_fs \<Rightarrow> ext2_inode \<Rightarrow> nat \<Rightarrow> u32 \<Rightarrow> u8 list \<Rightarrow> nat \<Rightarrow> int \<times> ext2_fs" where
  "remove_dir_entry_blocks fs dir_inode nblocks name_len name b =
     (if b < nblocks then
        (case ext2_read_data_block fs dir_inode (of_nat b) of
           None \<Rightarrow> remove_dir_entry_blocks fs dir_inode nblocks name_len name (b + 1)
         | Some block \<Rightarrow>
             (case remove_dir_entry_scan block (unat (block_size fs)) name_len name 0 None of
                Some block' \<Rightarrow> ext2_write_blocks fs (i_block_at dir_inode b) 1 block'
              | None \<Rightarrow> remove_dir_entry_blocks fs dir_inode nblocks name_len name (b + 1)))
      else (-1, fs))"
  by pat_completeness auto
termination
  by (relation "measure (\<lambda>(fs, dir_inode, nblocks, name_len, name, b). nblocks - b)") auto

definition ext2_remove_dir_entry :: "ext2_fs \<Rightarrow> ext2_inode \<Rightarrow> u32 \<Rightarrow> u8 list \<Rightarrow> int \<times> ext2_fs" where
  "ext2_remove_dir_entry fs dir_inode dir_inode_num name =
     (let name_len = strlen_local name
      in if name_len = 0 \<or> name_len > 255 then (-1, fs)
         else let dir_size = i_size dir_inode;
                  nblocks = (dir_size + block_size fs - 1) div block_size fs
              in if \<not> kmalloc_ok (block_size fs) then (-1, fs)
                 else remove_dir_entry_blocks fs dir_inode (unat nblocks) name_len name 0)"


section \<open>The VFS layer (vfs.c)\<close>

text \<open>
  The global \<open>ext2_get_fs()\<close> is an \<open>ext2_fs option\<close>: \<open>None\<close> before a filesystem is mounted.
  Every operation that changes the filesystem returns it. \<open>system_ticks\<close> is passed in.
\<close>

definition VFS_TYPE_FILE :: u32 where "VFS_TYPE_FILE = 1"
definition VFS_TYPE_DIR :: u32 where "VFS_TYPE_DIR = 2"
definition VFS_TYPE_SYMLINK :: u32 where "VFS_TYPE_SYMLINK = 3"

definition MAX_SYMLINK_DEPTH :: nat where "MAX_SYMLINK_DEPTH = 8"

record vfs_file =
  file_inode :: u32
  file_size :: u32
  file_type :: u32
  file_position :: u32
  file_is_open :: int

record vfs_dirent =
  dirent_inode :: u32
  dirent_name :: "u8 list"
  dirent_type :: u32
  dirent_size :: u32

definition vfs_get_type_from_mode :: "u16 \<Rightarrow> u32" where
  "vfs_get_type_from_mode mode =
     (if mode AND EXT2_S_IFDIR = EXT2_S_IFDIR then VFS_TYPE_DIR
      else if mode AND EXT2_S_IFLNK = EXT2_S_IFLNK then VFS_TYPE_SYMLINK
      else VFS_TYPE_FILE)"

text \<open>
  \<open>vfs_resolve_path\<close> repeats the loop of \<open>ext2_path_to_inode\<close> line for line and reports
  failure as -1 (\<open>None\<close>) instead of inode 0.
\<close>

definition vfs_resolve_path :: "ext2_fs option \<Rightarrow> u8 list \<Rightarrow> u32 option" where
  "vfs_resolve_path gfs path =
     (case gfs of
        None \<Rightarrow> None
      | Some fs \<Rightarrow>
          if strcmp_local path [0x2F] = 0 then Some EXT2_ROOT_INO
          else path_loop fs (skip_leading_slash path) EXT2_ROOT_INO [])"

subsection \<open>Open, read, seek, stat\<close>

text \<open>
  The symlink loop of \<open>vfs_open\<close>: it yields the inode reached and the number of links
  followed, or \<open>None\<close> where the source returns NULL inside the loop.
\<close>

function open_follow :: "ext2_fs \<Rightarrow> u32 \<Rightarrow> ext2_inode \<Rightarrow> nat \<Rightarrow> (u32 \<times> ext2_inode \<times> nat) option" where
  "open_follow fs inode_num inode depth =
     (if i_mode inode AND EXT2_S_IFLNK = EXT2_S_IFLNK \<and> depth < MAX_SYMLINK_DEPTH then
        (case ext2_read_symlink fs inode 256 of
           None \<Rightarrow> None
         | Some target \<Rightarrow>
             (let next_num = ext2_path_to_inode fs target
              in if next_num = 0 then None
                 else case ext2_read_inode fs next_num of
                        None \<Rightarrow> None
                      | Some next_inode \<Rightarrow> open_follow fs next_num next_inode (depth + 1)))
      else Some (inode_num, inode, depth))"
  by pat_completeness auto
termination
  by (relation "measure (\<lambda>(fs, inode_num, inode, depth). MAX_SYMLINK_DEPTH - depth)") auto

definition vfs_open :: "ext2_fs option \<Rightarrow> u8 list \<Rightarrow> vfs_file option" where
  "vfs_open gfs path =
     (case gfs of
        None \<Rightarrow> None
      | Some fs \<Rightarrow>
          (let inode_num = ext2_path_to_inode fs path
           in if inode_num = 0 then None
              else case ext2_read_inode fs inode_num of
                     None \<Rightarrow> None
                   | Some inode \<Rightarrow>
                       (case open_follow fs inode_num inode 0 of
                          None \<Rightarrow> None
                        | Some (inode_num', inode', depth) \<Rightarrow>
                            if depth \<ge> MAX_SYMLINK_DEPTH then None
                            else if i_mode inode' AND EXT2_S_IFDIR = EXT2_S_IFDIR then None
                            else Some \<lparr> file_inode = inode_num', file_size = i_size inode',
                                        file_type = VFS_TYPE_FILE, file_position = 0,
                                        file_is_open = 1 \<rparr>)))"

definition vfs_close :: "vfs_file \<Rightarrow> int \<times> vfs_file" where
  "vfs_close file = (if file_is_open file = 0 then (-1, file) else (0, file\<lparr>file_is_open := 0\<rparr>))"

text \<open>
  \<open>vfs_read\<close> returns the \<open>int\<close> result, the bytes placed in the caller's buffer, the
  filesystem and the handle. The access time is written back, its status ignored.
\<close>

definition vfs_read ::
  "ext2_fs option \<Rightarrow> vfs_file \<Rightarrow> u32 \<Rightarrow> u32 \<Rightarrow> int \<times> u8 list \<times> ext2_fs option \<times> vfs_file" where
  "vfs_read gfs file size' system_ticks =
     (if file_is_open file = 0 then (-1, [], gfs, file)
      else case gfs of
             None \<Rightarrow> (-1, [], gfs, file)
           | Some fs \<Rightarrow>
               (case ext2_read_inode fs (file_inode file) of
                  None \<Rightarrow> (-1, [], gfs, file)
                | Some inode \<Rightarrow>
                    (case ext2_read_file fs inode (file_position file) size' of
                       (bytes_read, buffer) \<Rightarrow>
                         if bytes_read > 0
                         then (bytes_read, buffer,
                               Some (snd (ext2_write_inode fs (file_inode file)
                                            (inode\<lparr>i_atime := system_ticks div 100\<rparr>))),
                               file\<lparr>file_position := file_position file + word_of_int bytes_read\<rparr>)
                         else (bytes_read, buffer, gfs, file))))"

definition vfs_seek :: "vfs_file \<Rightarrow> u32 \<Rightarrow> int \<times> vfs_file" where
  "vfs_seek file offset =
     (if file_is_open file = 0 then (-1, file)
      else if offset > file_size file then (0, file\<lparr>file_position := file_size file\<rparr>)
      else (0, file\<lparr>file_position := offset\<rparr>))"

text \<open>
  The name \<open>vfs_stat\<close> reports: the scan \<open>if (*p == '/' && *(p + 1)) name = p + 1\<close> over the
  path, then \<open>strcpy_local\<close> from there.
\<close>

fun stat_name_scan :: "u8 list \<Rightarrow> u8 list \<Rightarrow> u8 list" where
  "stat_name_scan [] name = name"
| "stat_name_scan (c # p) name =
     (if c = 0 then name
      else if c = 0x2F \<and> p \<noteq> [] \<and> hd p \<noteq> 0 then stat_name_scan p p
      else stat_name_scan p name)"

definition vfs_stat :: "ext2_fs option \<Rightarrow> u8 list \<Rightarrow> vfs_dirent option" where
  "vfs_stat gfs path =
     (case gfs of
        None \<Rightarrow> None
      | Some fs \<Rightarrow>
          (let inode_num = ext2_path_to_inode fs path
           in if inode_num = 0 then None
              else case ext2_read_inode fs inode_num of
                     None \<Rightarrow> None
                   | Some inode \<Rightarrow>
                       Some \<lparr> dirent_inode = inode_num,
                              dirent_name = strcpy_local (stat_name_scan path path),
                              dirent_type = vfs_get_type_from_mode (i_mode inode),
                              dirent_size = i_size inode \<rparr>))"

definition vfs_exists :: "ext2_fs option \<Rightarrow> u8 list \<Rightarrow> int" where
  "vfs_exists gfs path = (if vfs_resolve_path gfs path \<noteq> None then 1 else 0)"

subsection \<open>Create, unlink, symlink\<close>

text \<open>
  The path split that opens \<open>vfs_create\<close>, \<open>vfs_unlink\<close> and \<open>vfs_create_symlink\<close>:
  \<open>int len = strlen_local(path)\<close> reads the length as a signed 32-bit value; the loop
  keeps the index of the last slash among the first \<open>len\<close> bytes. \<open>None\<close> is the
  \<open>return -1\<close> of any of its four tests.
\<close>

definition last_slash_of :: "u8 list \<Rightarrow> int \<Rightarrow> int" where
  "last_slash_of path len =
     fold (\<lambda>i last_slash. if rd8 path i = 0x2F then int i else last_slash) [0..<nat len] (-1)"

definition split_path :: "u8 list \<Rightarrow> (u8 list \<times> u8 list) option" where
  "split_path path =
     (let len = sint (strlen_local path)
      in if len = 0 \<or> len > 255 then None
         else let last_slash = last_slash_of path len
              in if last_slash < 0 then None
                 else let parent_path = (if last_slash = 0 then [0x2F]
                                         else take (nat last_slash) path);
                          name = strcpy_local (drop (nat (last_slash + 1)) path)
                      in if strlen_local name = 0 then None else Some (parent_path, name))"

definition vfs_create :: "ext2_fs option \<Rightarrow> u8 list \<Rightarrow> u32 \<Rightarrow> u32 \<Rightarrow> int \<times> ext2_fs option" where
  "vfs_create gfs path type system_ticks =
     (case gfs of
        None \<Rightarrow> (-1, gfs)
      | Some fs \<Rightarrow>
     (case split_path path of
        None \<Rightarrow> (-1, gfs)
      | Some (parent_path, name) \<Rightarrow>
     (case vfs_resolve_path gfs parent_path of
        None \<Rightarrow> (-1, gfs)
      | Some parent_inode_num \<Rightarrow>
     (case ext2_read_inode fs parent_inode_num of
        None \<Rightarrow> (-1, gfs)
      | Some parent_inode \<Rightarrow>
     (case ext2_alloc_inode fs of (new_inode_num, fs1) \<Rightarrow>
        if new_inode_num = 0 then (-1, Some fs1)
        else if type \<noteq> VFS_TYPE_FILE \<and> type \<noteq> VFS_TYPE_DIR then (-1, Some fs1)
        else
     (let current_time = system_ticks div 100;
          new_inode = zero_inode
            \<lparr> i_mode := (if type = VFS_TYPE_FILE then EXT2_S_IFREG OR 0x1A4
                         else EXT2_S_IFDIR OR 0x1ED),
              i_links_count := (if type = VFS_TYPE_FILE then 1 else 2),
              i_size := 0, i_blocks := 0,
              i_atime := current_time, i_ctime := current_time, i_mtime := current_time \<rparr>
      in case ext2_write_inode fs1 new_inode_num new_inode of (r2, fs2) \<Rightarrow>
        if r2 \<noteq> 0 then (-1, Some fs2)
        else
     (case ext2_add_dir_entry fs2 parent_inode parent_inode_num new_inode_num name
             (if type = VFS_TYPE_FILE then EXT2_FT_REG_FILE else EXT2_FT_DIR) of
        (r3, fs3, parent_inode3) \<Rightarrow>
        if r3 \<noteq> 0 then (-1, Some fs3)
        else
     (let parent_inode4 = (if type = VFS_TYPE_DIR
                           then parent_inode3\<lparr>i_links_count := i_links_count parent_inode3 + 1\<rparr>
                           else parent_inode3)
      in case ext2_write_inode fs3 parent_inode_num parent_inode4 of (r4, fs4) \<Rightarrow>
        if r4 \<noteq> 0 then (-1, Some fs4)
        else if type = VFS_TYPE_DIR then
          (case ext2_read_inode fs4 new_inode_num of
             None \<Rightarrow> (-1, Some fs4)
           | Some dir_inode \<Rightarrow>
               (case ext2_add_dir_entry fs4 dir_inode new_inode_num new_inode_num [0x2E] EXT2_FT_DIR of
                  (r5, fs5, dir_inode5) \<Rightarrow>
               (case ext2_add_dir_entry fs5 dir_inode5 new_inode_num parent_inode_num
                       [0x2E, 0x2E] EXT2_FT_DIR of
                  (r6, fs6, dir_inode6) \<Rightarrow>
                    (0, Some (snd (ext2_write_inode fs6 new_inode_num dir_inode6))))))
        else (0, Some fs4)))))))))"

text \<open>
  The loop of \<open>vfs_unlink\<close> that frees the direct blocks of the inode; the status of
  \<open>ext2_free_block\<close> is ignored.
\<close>

function free_direct_blocks :: "ext2_fs \<Rightarrow> ext2_inode \<Rightarrow> nat \<Rightarrow> ext2_fs" where
  "free_direct_blocks fs inode i =
     (if i < 12 then
        free_direct_blocks
          (if i_block inode ! i \<noteq> 0 then snd (ext2_free_block fs (i_block inode ! i)) else fs)
          inode (i + 1)
      else fs)"
  by pat_completeness auto
termination
  by (relation "measure (\<lambda>(fs, inode, i). 12 - i)") auto

definition vfs_unlink :: "ext2_fs option \<Rightarrow> u8 list \<Rightarrow> int \<times> ext2_fs option" where
  "vfs_unlink gfs path =
     (case gfs of
        None \<Rightarrow> (-1, gfs)
      | Some fs \<Rightarrow>
     (case split_path path of
        None \<Rightarrow> (-1, gfs)
      | Some (parent_path, name) \<Rightarrow>
     (case vfs_resolve_path gfs parent_path of
        None \<Rightarrow> (-1, gfs)
      | Some parent_inode_num \<Rightarrow>
     (case ext2_read_inode fs parent_inode_num of
        None \<Rightarrow> (-1, gfs)
      | Some parent_inode \<Rightarrow>
     (case ext2_find_dir_entry fs parent_inode name of
        None \<Rightarrow> (-1, gfs)
      | Some inode_num \<Rightarrow>
     (case ext2_read_inode fs inode_num of
        None \<Rightarrow> (-1, gfs)
      | Some inode \<Rightarrow>
     (let is_dir = (i_mode inode AND EXT2_S_IFDIR = EXT2_S_IFDIR);
          is_empty = ext2_is_dir_empty fs inode
      in if is_dir \<and> is_empty < 0 then (-1, gfs)
         else if is_dir \<and> is_empty = 0 then (-1, gfs)
         else
     (let parent_inode1 = (if is_dir
                           then parent_inode\<lparr>i_links_count := i_links_count parent_inode - 1\<rparr>
                           else parent_inode)
      in case ext2_remove_dir_entry fs parent_inode1 parent_inode_num name of (r1, fs1) \<Rightarrow>
        if r1 \<noteq> 0 then (-1, Some fs1)
        else
     (case ext2_write_inode fs1 parent_inode_num parent_inode1 of (r2, fs2) \<Rightarrow>
        if r2 \<noteq> 0 then (-1, Some fs2)
        else
     (let inode' = inode\<lparr>i_links_count := i_links_count inode - 1\<rparr>
      in if i_links_count inode' = 0
         then (0, Some (snd (ext2_free_inode (free_direct_blocks fs2 inode' 0) inode_num)))
         else (0, Some (snd (ext2_write_inode fs2 inode_num inode')))))))))))))"

subsection \<open>Write and truncate\<close>

text \<open>
  The allocation step of the loop of \<open>vfs_write\<close>: a direct slot that is 0 takes a newly
  allocated block. The flag is false where the source breaks out of the loop because the
  allocator returned 0.
\<close>

definition write_alloc_step :: "ext2_fs \<Rightarrow> ext2_inode \<Rightarrow> u32 \<Rightarrow> bool \<times> ext2_fs \<times> ext2_inode" where
  "write_alloc_step fs inode block_index =
     (if block_index < 12 \<and> i_block inode ! unat block_index = 0 then
        (case ext2_alloc_block fs of
           (new_block, fs') \<Rightarrow>
             if new_block = 0 then (False, fs', inode)
             else (True, fs', inode\<lparr>i_block := (i_block inode)[unat block_index := new_block]\<rparr>))
      else (True, fs, inode))"

text \<open>
  The loop of \<open>vfs_write\<close>: it returns the filesystem, the in-memory inode and the count
  written. The statuses of the block read and the block write are ignored, as in the
  source; when the read fails the write to the same block fails by the same range test,
  so the contents of the unread buffer (zeros here) never reach the device.
\<close>

function write_loop ::
  "ext2_fs \<Rightarrow> ext2_inode \<Rightarrow> u32 \<Rightarrow> u8 list \<Rightarrow> u32 \<Rightarrow> u32 \<Rightarrow> ext2_fs \<times> ext2_inode \<times> u32" where
  "write_loop fs inode position buf size' written =
     (if written < size' then
        (case write_alloc_step fs inode ((position + written) div block_size fs) of
           (ok, fs1, inode1) \<Rightarrow>
             if \<not> ok then (fs1, inode1, written)
             else if (position + written) div block_size fs \<ge> 12
                     \<or> i_block inode1 ! unat ((position + written) div block_size fs) = 0
                  then (fs1, inode1, written)
             else if \<not> kmalloc_ok (block_size fs) then (fs1, inode1, written)
             else write_loop
                    (snd (ext2_write_blocks fs1
                            (i_block inode1 ! unat ((position + written) div block_size fs)) 1
                            (memcpy_local
                               (case ext2_read_blocks fs1
                                       (i_block inode1 ! unat ((position + written) div block_size fs)) 1 of
                                  None \<Rightarrow> replicate (unat (block_size fs)) 0
                                | Some block \<Rightarrow> block)
                               (unat ((position + written) mod block_size fs))
                               (drop (unat written) buf)
                               (unat (chunk_len (block_size fs)
                                        ((position + written) mod block_size fs)
                                        (size' - written))))))
                    inode1 position buf size'
                    (written + chunk_len (block_size fs) ((position + written) mod block_size fs)
                                 (size' - written)))
      else (fs, inode, written))"
  by pat_completeness auto
termination
  by (relation "measure (\<lambda>(fs, inode, position, buf, size', written). unat (size' - written))")
     (auto simp: kmalloc_ok_def intro: chunk_len_measure)


text \<open>
  \<open>vfs_write\<close> returns the \<open>int\<close> result, the filesystem and the handle. The inode is
  written back with the status ignored.
\<close>

definition vfs_write ::
  "ext2_fs option \<Rightarrow> vfs_file \<Rightarrow> u8 list \<Rightarrow> u32 \<Rightarrow> u32 \<Rightarrow> int \<times> ext2_fs option \<times> vfs_file" where
  "vfs_write gfs file buffer size' system_ticks =
     (case gfs of
        None \<Rightarrow> (-1, gfs, file)
      | Some fs \<Rightarrow>
          if file_is_open file = 0 then (-1, gfs, file)
          else case ext2_read_inode fs (file_inode file) of
                 None \<Rightarrow> (-1, gfs, file)
               | Some inode \<Rightarrow>
                   (case write_loop fs inode (file_position file) buffer size' 0 of
                      (fs1, inode1, written) \<Rightarrow>
                        (let inode2 = (if file_position file + written > i_size inode1
                                       then inode1\<lparr>i_size := file_position file + written\<rparr>
                                       else inode1);
                             file' = file\<lparr>file_position := file_position file + written,
                                          file_size := i_size inode2\<rparr>;
                             inode3 = inode2\<lparr>i_mtime := system_ticks div 100\<rparr>
                         in (sint written,
                             Some (snd (ext2_write_inode fs1 (file_inode file) inode3)),
                             file'))))"

text \<open>
  The loop of \<open>vfs_truncate\<close> over the direct slots from \<open>new_blocks\<close> up to
  \<open>old_blocks\<close>, at most 12.
\<close>

function truncate_loop :: "ext2_fs \<Rightarrow> ext2_inode \<Rightarrow> nat \<Rightarrow> nat \<Rightarrow> ext2_fs \<times> ext2_inode" where
  "truncate_loop fs inode old_blocks i =
     (if i < old_blocks \<and> i < 12 then
        (if i_block inode ! i \<noteq> 0
         then truncate_loop (snd (ext2_free_block fs (i_block inode ! i)))
                (inode\<lparr>i_block := (i_block inode)[i := 0]\<rparr>) old_blocks (i + 1)
         else truncate_loop fs inode old_blocks (i + 1))
      else (fs, inode))"
  by pat_completeness auto
termination
  by (relation "measure (\<lambda>(fs, inode, old_blocks, i). 12 - i)") auto

definition vfs_truncate ::
  "ext2_fs option \<Rightarrow> vfs_file \<Rightarrow> u32 \<Rightarrow> int \<times> ext2_fs option \<times> vfs_file" where
  "vfs_truncate gfs file new_size =
     (case gfs of
        None \<Rightarrow> (-1, gfs, file)
      | Some fs \<Rightarrow>
          if file_is_open file = 0 then (-1, gfs, file)
          else case ext2_read_inode fs (file_inode file) of
                 None \<Rightarrow> (-1, gfs, file)
               | Some inode \<Rightarrow>
                   if new_size \<ge> i_size inode then (0, gfs, file)
                   else let old_blocks = (i_size inode + block_size fs - 1) div block_size fs;
                            new_blocks = (new_size + block_size fs - 1) div block_size fs
                        in case truncate_loop fs inode (unat old_blocks) (unat new_blocks) of
                             (fs1, inode1) \<Rightarrow>
                               (0,
                                Some (snd (ext2_write_inode fs1 (file_inode file)
                                             (inode1\<lparr>i_size := new_size\<rparr>))),
                                file\<lparr>file_size := new_size,
                                     file_position := (if file_position file > new_size
                                                       then new_size else file_position file)\<rparr>))"

text \<open>
  \<open>vfs_create_symlink\<close>. A target of at most 60 bytes is copied over the bytes of
  \<open>i_block\<close>; a longer one goes to a newly allocated block.
\<close>

definition store_fast_symlink :: "ext2_inode \<Rightarrow> u8 list \<Rightarrow> u32 \<Rightarrow> ext2_inode" where
  "store_fast_symlink inode target target_len =
     (let bytes = memcpy_local (concat (map enc32 (i_block inode))) 0 target (unat target_len)
      in inode\<lparr>i_block := map (\<lambda>k. le32 bytes (4 * k)) [0..<15]\<rparr>)"

text \<open>
  The tail of \<open>vfs_create_symlink\<close> once the target is stored: write the inode, add the
  entry to the parent, write the parent back. The first two failures free the inode.
\<close>

definition symlink_finish ::
  "ext2_fs \<Rightarrow> ext2_inode \<Rightarrow> u32 \<Rightarrow> ext2_inode \<Rightarrow> u32 \<Rightarrow> u8 list \<Rightarrow> int \<times> ext2_fs option" where
  "symlink_finish fs new_inode new_inode_num parent_inode parent_inode_num name =
     (case ext2_write_inode fs new_inode_num new_inode of (r1, fs1) \<Rightarrow>
        if r1 \<noteq> 0 then (-1, Some (snd (ext2_free_inode fs1 new_inode_num)))
        else
     (case ext2_add_dir_entry fs1 parent_inode parent_inode_num new_inode_num name
             EXT2_FT_SYMLINK of
        (r2, fs2, parent_inode2) \<Rightarrow>
        if r2 \<noteq> 0 then (-1, Some (snd (ext2_free_inode fs2 new_inode_num)))
        else
     (case ext2_write_inode fs2 parent_inode_num parent_inode2 of (r3, fs3) \<Rightarrow>
        if r3 \<noteq> 0 then (-1, Some fs3) else (0, Some fs3))))"

definition vfs_create_symlink ::
  "ext2_fs option \<Rightarrow> u8 list \<Rightarrow> u8 list \<Rightarrow> int \<times> ext2_fs option" where
  "vfs_create_symlink gfs path target =
     (case gfs of
        None \<Rightarrow> (-1, gfs)
      | Some fs \<Rightarrow>
     (case split_path path of
        None \<Rightarrow> (-1, gfs)
      | Some (parent_path, name) \<Rightarrow>
     (case vfs_resolve_path gfs parent_path of
        None \<Rightarrow> (-1, gfs)
      | Some parent_inode_num \<Rightarrow>
     (case ext2_read_inode fs parent_inode_num of
        None \<Rightarrow> (-1, gfs)
      | Some parent_inode \<Rightarrow>
     (case ext2_alloc_inode fs of (new_inode_num, fs1) \<Rightarrow>
        if new_inode_num = 0 then (-1, Some fs1)
        else
     (let target_len = strlen_local target;
          new_inode = zero_inode\<lparr>i_mode := EXT2_S_IFLNK OR 0x1FF, i_links_count := 1,
                                 i_size := target_len\<rparr>
      in if target_len \<le> 60
         then symlink_finish fs1 (store_fast_symlink new_inode target target_len)
                new_inode_num parent_inode parent_inode_num name
         else
     (case ext2_alloc_block fs1 of (block, fs2) \<Rightarrow>
        if block = 0 then (-1, Some (snd (ext2_free_inode fs2 new_inode_num)))
        else symlink_finish
               (snd (ext2_write_blocks fs2 block 1
                       (memcpy_local (memset_local (replicate (unat (block_size fs)) 0) 0
                                        (unat (block_size fs)))
                          0 target (unat target_len))))
               (new_inode\<lparr>i_block := (i_block new_inode)[0 := block]\<rparr>)
               new_inode_num parent_inode parent_inode_num name)))))))"

subsection \<open>chmod and chown\<close>

definition vfs_chmod :: "ext2_fs option \<Rightarrow> u8 list \<Rightarrow> u16 \<Rightarrow> u32 \<Rightarrow> int \<times> ext2_fs option" where
  "vfs_chmod gfs path mode system_ticks =
     (case gfs of
        None \<Rightarrow> (-1, gfs)
      | Some fs \<Rightarrow>
          (let inode_num = ext2_path_to_inode fs path
           in if inode_num = 0 then (-1, gfs)
              else case ext2_read_inode fs inode_num of
                     None \<Rightarrow> (-1, gfs)
                   | Some inode \<Rightarrow>
                       (let file_type = i_mode inode AND 0xF000;
                            inode' = inode\<lparr>i_mode := file_type OR (mode AND 0x1FF),
                                           i_ctime := system_ticks div 100\<rparr>
                        in case ext2_write_inode fs inode_num inode' of
                             (r, fs') \<Rightarrow> if r \<noteq> 0 then (-1, Some fs') else (0, Some fs'))))"

definition vfs_chown :: "ext2_fs option \<Rightarrow> u8 list \<Rightarrow> u16 \<Rightarrow> u16 \<Rightarrow> u32 \<Rightarrow> int \<times> ext2_fs option" where
  "vfs_chown gfs path uid gid system_ticks =
     (case gfs of
        None \<Rightarrow> (-1, gfs)
      | Some fs \<Rightarrow>
          (let inode_num = ext2_path_to_inode fs path
           in if inode_num = 0 then (-1, gfs)
              else case ext2_read_inode fs inode_num of
                     None \<Rightarrow> (-1, gfs)
                   | Some inode \<Rightarrow>
                       (let inode' = inode\<lparr>i_uid := uid, i_gid := gid,
                                           i_ctime := system_ticks div 100\<rparr>
                        in case ext2_write_inode fs inode_num inode' of
                             (r, fs') \<Rightarrow> if r \<noteq> 0 then (-1, Some fs') else (0, Some fs'))))"

section \<open>Well-formed devices and filesystems\<close>

text \<open>
  What \<open>ramdisk_create\<close> and \<open>ext2_init\<close> establish and every operation keeps: the device
  buffer has \<open>size\<close> bytes, which is 512 times the block count; the filesystem block size is
  1024, 2048 or 4096 (\<open>1024 << s_log_block_size\<close> within \<open>EXT2_MAX_BLOCK_SIZE\<close>); the group
  sizes are not 0, so that no division traps; and the descriptor table has one entry per
  group.
\<close>

definition ramdisk_ok :: "ramdisk_data \<Rightarrow> bool" where
  "ramdisk_ok rd = (length (data rd) = unat (rd_size rd)
                    \<and> unat (rd_size rd) = 512 * unat (block_count rd))"

definition fs_ok :: "ext2_fs \<Rightarrow> bool" where
  "fs_ok fs = (ramdisk_ok (device fs)
               \<and> (block_size fs = 1024 \<or> block_size fs = 2048 \<or> block_size fs = 4096)
               \<and> inodes_per_group fs \<noteq> 0 \<and> blocks_per_group fs \<noteq> 0
               \<and> length (block_groups fs) = unat (num_block_groups fs))"

definition dev_block :: "ext2_fs \<Rightarrow> u32 \<Rightarrow> u32" where
  "dev_block fs k = k * (block_size fs div 512)"

definition blk_in_range :: "ext2_fs \<Rightarrow> u32 \<Rightarrow> bool" where
  "blk_in_range fs k =
     (unat (dev_block fs k) + unat (block_size fs div 512) \<le> unat (block_count (device fs)))"

definition blk_at :: "ext2_fs \<Rightarrow> u32 \<Rightarrow> u8 list" where
  "blk_at fs k = rd_bytes (data (device fs)) (512 * unat (dev_block fs k)) (unat (block_size fs))"

definition put_blk :: "ext2_fs \<Rightarrow> u32 \<Rightarrow> u8 list \<Rightarrow> ext2_fs" where
  "put_blk fs k buf =
     fs\<lparr>device := (device fs)\<lparr>data := wr_bytes (data (device fs)) (512 * unat (dev_block fs k))
                                          (take (unat (block_size fs)) buf)\<rparr>\<rparr>"

text \<open>Where inode \<open>n\<close> lies: the block of the inode table and the slot in it.\<close>

definition inode_block :: "ext2_fs \<Rightarrow> u32 \<Rightarrow> u32" where
  "inode_block fs n =
     bg_inode_table (block_groups fs ! unat ((n - 1) div inodes_per_group fs))
       + ((n - 1) mod inodes_per_group fs) div (block_size fs div 128)"

definition inode_slot :: "ext2_fs \<Rightarrow> u32 \<Rightarrow> nat" where
  "inode_slot fs n = unat (((n - 1) mod inodes_per_group fs) mod (block_size fs div 128))"

definition inode_valid :: "ext2_fs \<Rightarrow> u32 \<Rightarrow> bool" where
  "inode_valid fs n = (n \<noteq> 0 \<and> (n - 1) div inodes_per_group fs < num_block_groups fs
                       \<and> blk_in_range fs (inode_block fs n))"

section \<open>Facts about buffers and scalars\<close>

lemma length_wr_bytes [simp]: "length (wr_bytes buf off bs) = length buf"
  by (simp add: wr_bytes_def)

lemma nth_wr_bytes:
  "i < length buf \<Longrightarrow>
   wr_bytes buf off bs ! i = (if off \<le> i \<and> i < off + length bs then bs ! (i - off) else buf ! i)"
  by (auto simp: wr_bytes_def nth_append min_def)

lemma rd8_wr_bytes:
  "rd8 (wr_bytes buf off bs) i =
     (if off \<le> i \<and> i < off + length bs \<and> i < length buf then bs ! (i - off) else rd8 buf i)"
  by (auto simp: rd8_def nth_wr_bytes)

lemma wr_bytes_in_range:
  "off + length bs \<le> length buf \<Longrightarrow>
   wr_bytes buf off bs = take off buf @ bs @ drop (off + length bs) buf"
  by (simp add: wr_bytes_def)

lemma length_rd_bytes: "off + n \<le> length buf \<Longrightarrow> length (rd_bytes buf off n) = n"
  by (simp add: rd_bytes_def)

lemma rd_bytes_wr_bytes_same:
  "off + length bs \<le> length buf \<Longrightarrow> rd_bytes (wr_bytes buf off bs) off (length bs) = bs"
  by (simp add: wr_bytes_in_range rd_bytes_def)

lemma rd_bytes_wr_bytes_other:
  "off' + n \<le> off \<or> off + length bs \<le> off' \<Longrightarrow>
   rd_bytes (wr_bytes buf off bs) off' n = rd_bytes buf off' n"
  by (rule nth_equalityI) (auto simp: rd_bytes_def nth_wr_bytes)

lemma rd8_rd_bytes: "i < n \<Longrightarrow> rd8 (rd_bytes buf off n) i = rd8 buf (off + i)"
  by (auto simp: rd8_def rd_bytes_def)

lemma le16_enc16 [simp]: "le16 (enc16 w @ ys) 0 = w"
proof (rule bit_word_eqI)
  fix n assume "n < LENGTH(16)"
  then consider "n < 8" | "8 \<le> n" "n < 16" by fastforce
  then show "bit (le16 (enc16 w @ ys) 0) n = bit w n"
    by cases (auto simp: le16_def enc16_def rd8_def bit_simps)
qed

lemma le32_enc32 [simp]: "le32 (enc32 w @ ys) 0 = w"
proof (rule bit_word_eqI)
  fix n assume "n < LENGTH(32)"
  then consider "n < 8" | "8 \<le> n" "n < 16" | "16 \<le> n" "n < 24" | "24 \<le> n" "n < 32"
    by fastforce
  then show "bit (le32 (enc32 w @ ys) 0) n = bit w n"
    by cases (auto simp: le32_def enc32_def rd8_def bit_simps)
qed

lemma length_enc16 [simp]: "length (enc16 w) = 2" by (simp add: enc16_def)
lemma length_enc32 [simp]: "length (enc32 w) = 4" by (simp add: enc32_def)

lemma rd8_append: "rd8 (xs @ ys) i = (if i < length xs then rd8 xs i else rd8 ys (i - length xs))"
  by (auto simp: rd8_def nth_append)

lemma rd8_append_skip [simp]: "rd8 (xs @ ys) (length xs + k) = rd8 ys k"
  by (simp add: rd8_append)

lemma le16_cong: "(\<And>i. i < 2 \<Longrightarrow> rd8 a (x + i) = rd8 b (y + i)) \<Longrightarrow> le16 a x = le16 b y"
proof -
  assume h: "\<And>i. i < 2 \<Longrightarrow> rd8 a (x + i) = rd8 b (y + i)"
  have "rd8 a x = rd8 b y" using h[of 0] by simp
  moreover have "rd8 a (x + 1) = rd8 b (y + 1)" using h[of 1] by simp
  ultimately show ?thesis by (simp add: le16_def)
qed

lemma le32_cong: "(\<And>i. i < 4 \<Longrightarrow> rd8 a (x + i) = rd8 b (y + i)) \<Longrightarrow> le32 a x = le32 b y"
proof -
  assume h: "\<And>i. i < 4 \<Longrightarrow> rd8 a (x + i) = rd8 b (y + i)"
  have "rd8 a x = rd8 b y" using h[of 0] by simp
  moreover have "rd8 a (x + 1) = rd8 b (y + 1)" using h[of 1] by simp
  moreover have "rd8 a (x + 2) = rd8 b (y + 2)" using h[of 2] by simp
  moreover have "rd8 a (x + 3) = rd8 b (y + 3)" using h[of 3] by simp
  ultimately show ?thesis by (simp add: le32_def)
qed

lemma le16_append_skip: "le16 (xs @ ys) (length xs + k) = le16 ys k"
  by (rule le16_cong) (simp add: rd8_append)

lemma le32_append_skip: "le32 (xs @ ys) (length xs + k) = le32 ys k"
  by (rule le32_cong) (simp add: rd8_append)

lemma le32_concat_enc32:
  "k < length ws \<Longrightarrow> le32 (concat (map enc32 ws) @ ys) (4 * k) = ws ! k"
proof (induction ws arbitrary: k)
  case Nil
  then show ?case by simp
next
  case (Cons w ws)
  show ?case
  proof (cases k)
    case 0
    then show ?thesis by simp
  next
    case (Suc j)
    have "le32 (enc32 w @ (concat (map enc32 ws) @ ys)) (length (enc32 w) + 4 * j)
            = le32 (concat (map enc32 ws) @ ys) (4 * j)"
      by (rule le32_append_skip)
    then show ?thesis using Suc Cons by simp
  qed
qed

lemma length_concat_enc32 [simp]: "length (concat (map enc32 ws)) = 4 * length ws"
  by (induction ws) auto


lemma rd8_skip_le [simp]: "length xs \<le> n \<Longrightarrow> rd8 (xs @ ys) n = rd8 ys (n - length xs)"
  by (simp add: rd8_append)

lemma le16_skip_le [simp]: "length xs \<le> n \<Longrightarrow> le16 (xs @ ys) n = le16 ys (n - length xs)"
  using le16_append_skip[of xs ys "n - length xs"] by simp

lemma le32_skip_le [simp]: "length xs \<le> n \<Longrightarrow> le32 (xs @ ys) n = le32 ys (n - length xs)"
  using le32_append_skip[of xs ys "n - length xs"] by simp

lemma map_le32_concat:
  "length ws = n \<Longrightarrow> map (\<lambda>k. le32 (concat (map enc32 ws) @ ys) (4 * k)) [0..<n] = ws"
  by (auto intro!: nth_equalityI simp: le32_concat_enc32)

lemma map_rd8_all: "length bs = n \<Longrightarrow> map (\<lambda>k. rd8 (bs @ ys) k) [0..<n] = bs"
  by (auto intro!: nth_equalityI simp: rd8_def nth_append)

lemma length_encode_inode: "inode_ok ino \<Longrightarrow> length (encode_inode ino) = 128"
  by (simp add: encode_inode_def inode_ok_def)

lemma decode_encode_inode_app:
  assumes "inode_ok ino"
  shows "decode_inode (encode_inode ino @ rest) = ino"
proof -
  have b: "length (i_block ino) = 15" and o: "length (i_osd2 ino) = 12"
    using assms by (simp_all add: inode_ok_def)
  have blk: "map (\<lambda>k. le32 (encode_inode ino @ rest) (40 + 4 * k)) [0..<15] = i_block ino"
    using map_le32_concat[OF b] by (simp add: encode_inode_def)
  have osd: "map (\<lambda>k. rd8 (encode_inode ino @ rest) (116 + k)) [0..<12] = i_osd2 ino"
    using map_rd8_all[OF o] by (simp add: encode_inode_def b)
  have "decode_inode (encode_inode ino @ rest) =
        \<lparr> i_mode = i_mode ino, i_uid = i_uid ino, i_size = i_size ino, i_atime = i_atime ino,
          i_ctime = i_ctime ino, i_mtime = i_mtime ino, i_dtime = i_dtime ino,
          i_gid = i_gid ino, i_links_count = i_links_count ino, i_blocks = i_blocks ino,
          i_flags = i_flags ino, i_osd1 = i_osd1 ino, i_block = i_block ino,
          i_generation = i_generation ino, i_file_acl = i_file_acl ino,
          i_dir_acl = i_dir_acl ino, i_faddr = i_faddr ino, i_osd2 = i_osd2 ino \<rparr>"
    unfolding decode_inode_def blk osd
    by (simp add: encode_inode_def b)
  then show ?thesis by simp
qed

lemma decode_encode_inode: "inode_ok ino \<Longrightarrow> decode_inode (encode_inode ino) = ino"
  using decode_encode_inode_app[of ino "[]"] by simp

lemma inode_ok_decode [simp]: "inode_ok (decode_inode buf)"
  by (simp add: inode_ok_def decode_inode_def)


lemma ramdisk_ok_bound: "ramdisk_ok rd \<Longrightarrow> unat (block_count rd) < 2 ^ 23"
proof -
  assume "ramdisk_ok rd"
  then have "512 * unat (block_count rd) = unat (rd_size rd)" by (simp add: ramdisk_ok_def)
  moreover have "unat (rd_size rd) < 2 ^ 32" using unsigned_less[of "rd_size rd"] by simp
  ultimately show ?thesis by simp
qed

lemma ramdisk_checks:
  assumes ok: "ramdisk_ok rd" and c: "unat c \<le> 8"
  shows "(\<not> b \<ge> block_count rd \<and> \<not> b + c > block_count rd)
         \<longleftrightarrow> (unat b < unat (block_count rd) \<and> unat b + unat c \<le> unat (block_count rd))"
proof -
  have bc: "unat (block_count rd) < 2 ^ 23" using ok by (rule ramdisk_ok_bound)
  show ?thesis
  proof (cases "unat b < unat (block_count rd)")
    case True
    then have "unat b + unat c < 2 ^ 32" using bc c by simp
    then have "unat (b + c) = unat b + unat c" by (simp add: unat_word_ariths)
    then show ?thesis using True by (simp add: word_le_nat_alt word_less_nat_alt not_less not_le)
  next
    case False
    then show ?thesis by (simp add: word_le_nat_alt)
  qed
qed

lemma fs_ok_bpf:
  "fs_ok fs \<Longrightarrow> unat (block_size fs div 512) * 512 = unat (block_size fs)
                \<and> 0 < unat (block_size fs div 512) \<and> unat (block_size fs div 512) \<le> 8
                \<and> (block_size fs div 512) * 512 = block_size fs"
  by (auto simp: fs_ok_def)

lemma ext2_read_blocks_eq:
  assumes "fs_ok fs"
  shows "ext2_read_blocks fs k 1 = (if blk_in_range fs k then Some (blk_at fs k) else None)"
proof -
  let ?c = "block_size fs div 512" and ?b = "dev_block fs k"
  have rd: "ramdisk_ok (device fs)" using assms by (simp add: fs_ok_def)
  have c: "unat ?c * 512 = unat (block_size fs)" "0 < unat ?c" "unat ?c \<le> 8" "?c * 512 = block_size fs"
    using fs_ok_bpf[OF assms] by simp_all
  have chk: "(\<not> ?b \<ge> block_count (device fs) \<and> \<not> ?b + ?c > block_count (device fs))
             \<longleftrightarrow> blk_in_range fs k"
    using ramdisk_checks[OF rd c(3), of ?b] c(2) by (auto simp: blk_in_range_def)
  have bc: "unat (block_count (device fs)) < 2 ^ 23" using rd by (rule ramdisk_ok_bound)
  have off: "blk_in_range fs k \<Longrightarrow> unat (?b * 512) = 512 * unat ?b"
  proof -
    assume "blk_in_range fs k"
    then have "unat ?b < 2 ^ 23" using bc by (simp add: blk_in_range_def)
    then have "unat ?b * 512 < 2 ^ 32" by simp
    then show ?thesis by (simp add: unat_word_ariths)
  qed
  show ?thesis
    using chk off c(4)
    by (auto simp: ext2_read_blocks_def ramdisk_read_def blockdev_get_block_size_def
                   RAMDISK_BLOCK_SIZE_def Let_def blk_at_def dev_block_def)
qed

lemma ext2_write_blocks_eq:
  assumes "fs_ok fs"
  shows "ext2_write_blocks fs k 1 buf =
           (if blk_in_range fs k then (0, put_blk fs k buf) else (-1, fs))"
proof -
  let ?c = "block_size fs div 512" and ?b = "dev_block fs k"
  have rd: "ramdisk_ok (device fs)" using assms by (simp add: fs_ok_def)
  have c: "unat ?c * 512 = unat (block_size fs)" "0 < unat ?c" "unat ?c \<le> 8" "?c * 512 = block_size fs"
    using fs_ok_bpf[OF assms] by simp_all
  have chk: "(\<not> ?b \<ge> block_count (device fs) \<and> \<not> ?b + ?c > block_count (device fs))
             \<longleftrightarrow> blk_in_range fs k"
    using ramdisk_checks[OF rd c(3), of ?b] c(2) by (auto simp: blk_in_range_def)
  have bc: "unat (block_count (device fs)) < 2 ^ 23" using rd by (rule ramdisk_ok_bound)
  have off: "blk_in_range fs k \<Longrightarrow> unat (?b * 512) = 512 * unat ?b"
  proof -
    assume "blk_in_range fs k"
    then have "unat ?b < 2 ^ 23" using bc by (simp add: blk_in_range_def)
    then have "unat ?b * 512 < 2 ^ 32" by simp
    then show ?thesis by (simp add: unat_word_ariths)
  qed
  show ?thesis
    using chk off c(4)
    by (auto simp: ext2_write_blocks_def ramdisk_write_def blockdev_get_block_size_def
                   RAMDISK_BLOCK_SIZE_def Let_def put_blk_def dev_block_def memcpy_local_def)
qed


lemma fs_ok_put_blk [simp]: "fs_ok (put_blk fs k buf) = fs_ok fs"
  by (simp add: fs_ok_def put_blk_def ramdisk_ok_def)

lemma put_blk_fields [simp]:
  "block_size (put_blk fs k buf) = block_size fs"
  "block_groups (put_blk fs k buf) = block_groups fs"
  "superblock (put_blk fs k buf) = superblock fs"
  "inodes_per_group (put_blk fs k buf) = inodes_per_group fs"
  "blocks_per_group (put_blk fs k buf) = blocks_per_group fs"
  "num_block_groups (put_blk fs k buf) = num_block_groups fs"
  "block_count (device (put_blk fs k buf)) = block_count (device fs)"
  by (simp_all add: put_blk_def)

lemma dev_block_put_blk [simp]: "dev_block (put_blk fs k buf) j = dev_block fs j"
  by (simp add: dev_block_def)

lemma blk_in_range_put_blk [simp]: "blk_in_range (put_blk fs k buf) j = blk_in_range fs j"
  by (simp add: blk_in_range_def)

lemma blk_in_range_bytes:
  assumes "fs_ok fs" and "blk_in_range fs k"
  shows "512 * unat (dev_block fs k) + unat (block_size fs) \<le> length (data (device fs))"
proof -
  have "unat (block_size fs div 512) * 512 = unat (block_size fs)"
    using fs_ok_bpf[OF assms(1)] by simp
  moreover have "length (data (device fs)) = 512 * unat (block_count (device fs))"
    using assms(1) by (simp add: fs_ok_def ramdisk_ok_def)
  ultimately show ?thesis using assms(2) by (simp add: blk_in_range_def)
qed

lemma length_blk_at:
  "fs_ok fs \<Longrightarrow> blk_in_range fs k \<Longrightarrow> length (blk_at fs k) = unat (block_size fs)"
  using blk_in_range_bytes[of fs k] by (simp add: blk_at_def rd_bytes_def)

lemma blk_at_put_blk_same:
  assumes "fs_ok fs" and "blk_in_range fs k" and "length buf = unat (block_size fs)"
    and "dev_block fs j = dev_block fs k"
  shows "blk_at (put_blk fs k buf) j = buf"
proof -
  have "512 * unat (dev_block fs k) + length buf \<le> length (data (device fs))"
    using blk_in_range_bytes[OF assms(1,2)] assms(3) by simp
  then have "rd_bytes (wr_bytes (data (device fs)) (512 * unat (dev_block fs k)) buf)
               (512 * unat (dev_block fs k)) (length buf) = buf"
    by (rule rd_bytes_wr_bytes_same)
  then show ?thesis using assms(3,4) by (simp add: blk_at_def put_blk_def dev_block_def)
qed

lemma dev_block_aligned:
  assumes "fs_ok fs"
  shows "unat (block_size fs div 512) dvd unat (dev_block fs k)"
proof -
  have c: "block_size fs div 512 = 2 \<or> block_size fs div 512 = 4 \<or> block_size fs div 512 = 8"
    using assms by (auto simp: fs_ok_def)
  have "unat (dev_block fs k) = (unat k * unat (block_size fs div 512)) mod 2 ^ 32"
    by (simp add: dev_block_def unat_word_ariths)
  moreover have "unat (block_size fs div 512) dvd (2::nat) ^ 32"
    using c by auto
  ultimately show ?thesis by (simp add: dvd_mod)
qed

lemma dev_block_disjoint:
  assumes "fs_ok fs" and "dev_block fs j \<noteq> dev_block fs k"
  shows "unat (dev_block fs j) + unat (block_size fs div 512) \<le> unat (dev_block fs k)
         \<or> unat (dev_block fs k) + unat (block_size fs div 512) \<le> unat (dev_block fs j)"
proof -
  let ?c = "unat (block_size fs div 512)"
  obtain a where a: "unat (dev_block fs j) = ?c * a"
    using dev_block_aligned[OF assms(1), of j] by (auto simp: dvd_def)
  obtain b where b: "unat (dev_block fs k) = ?c * b"
    using dev_block_aligned[OF assms(1), of k] by (auto simp: dvd_def)
  have "a \<noteq> b" using assms(2) a b by (metis unsigned_word_eqI)
  then have "a + 1 \<le> b \<or> b + 1 \<le> a" by arith
  then have "?c * (a + 1) \<le> ?c * b \<or> ?c * (b + 1) \<le> ?c * a"
    using mult_le_mono2 by blast
  then show ?thesis using a b by (simp add: algebra_simps)
qed

lemma blk_at_put_blk_other:
  assumes "fs_ok fs" and "dev_block fs j \<noteq> dev_block fs k"
  shows "blk_at (put_blk fs k buf) j = blk_at fs j"
proof -
  have c: "unat (block_size fs div 512) * 512 = unat (block_size fs)"
    using fs_ok_bpf[OF assms(1)] by simp
  have "length (take (unat (block_size fs)) buf) \<le> unat (block_size fs)" by simp
  moreover have "512 * unat (dev_block fs j) + unat (block_size fs) \<le> 512 * unat (dev_block fs k)
         \<or> 512 * unat (dev_block fs k) + unat (block_size fs) \<le> 512 * unat (dev_block fs j)"
    using dev_block_disjoint[OF assms] c by arith
  ultimately have "rd_bytes (wr_bytes (data (device fs)) (512 * unat (dev_block fs k))
                       (take (unat (block_size fs)) buf))
                     (512 * unat (dev_block fs j)) (unat (block_size fs))
                   = rd_bytes (data (device fs)) (512 * unat (dev_block fs j)) (unat (block_size fs))"
    by (intro rd_bytes_wr_bytes_other) arith
  then show ?thesis by (simp add: blk_at_def put_blk_def dev_block_def)
qed

section \<open>Facts about inode reads and writes\<close>

lemma fs_ok_kmalloc [simp]: "fs_ok fs \<Longrightarrow> kmalloc_ok (block_size fs)"
  by (auto simp: fs_ok_def kmalloc_ok_def)

lemma ext2_read_inode_eq:
  assumes "fs_ok fs"
  shows "ext2_read_inode fs n =
           (if inode_valid fs n
            then Some (decode_inode (rd_bytes (blk_at fs (inode_block fs n)) (inode_slot fs n * 128) 128))
            else None)"
  using assms
  by (auto simp: ext2_read_inode_def Let_def ext2_read_blocks_eq inode_valid_def inode_block_def
                inode_slot_def)

lemma ext2_write_inode_eq:
  assumes "fs_ok fs"
  shows "ext2_write_inode fs n ino =
           (if inode_valid fs n
            then (0, put_blk fs (inode_block fs n)
                       (wr_bytes (blk_at fs (inode_block fs n)) (inode_slot fs n * 128)
                          (take 128 (encode_inode ino))))
            else (-1, fs))"
  using assms
  by (auto simp: ext2_write_inode_def Let_def ext2_read_blocks_eq ext2_write_blocks_eq
                inode_valid_def inode_block_def inode_slot_def memcpy_local_def)

lemma inode_slot_bound:
  assumes "fs_ok fs"
  shows "inode_slot fs n * 128 + 128 \<le> unat (block_size fs)"
proof -
  have d: "block_size fs div 128 \<noteq> 0" "unat (block_size fs div 128) * 128 = unat (block_size fs)"
    using assms by (auto simp: fs_ok_def)
  have "((n - 1) mod inodes_per_group fs) mod (block_size fs div 128) < block_size fs div 128"
    using d(1) by (simp add: word_mod_less_divisor word_neq_0_conv)
  then have "inode_slot fs n < unat (block_size fs div 128)"
    by (simp add: inode_slot_def word_less_nat_alt)
  then have "(inode_slot fs n + 1) * 128 \<le> unat (block_size fs div 128) * 128"
    by (intro mult_le_mono1) simp
  then show ?thesis using d(2) by simp
qed

lemma inode_valid_put_blk [simp]: "inode_valid (put_blk fs k buf) n = inode_valid fs n"
  by (simp add: inode_valid_def inode_block_def)

lemma inode_block_put_blk [simp]: "inode_block (put_blk fs k buf) n = inode_block fs n"
  by (simp add: inode_block_def)

lemma inode_slot_put_blk [simp]: "inode_slot (put_blk fs k buf) n = inode_slot fs n"
  by (simp add: inode_slot_def)

lemma ext2_read_after_write_inode:
  assumes ok: "fs_ok fs" and v: "inode_valid fs n" and io: "inode_ok ino"
    and w: "ext2_write_inode fs n ino = (r, fs')"
  shows "r = 0 \<and> fs_ok fs' \<and> ext2_read_inode fs' n = Some ino"
proof -
  let ?k = "inode_block fs n" and ?s = "inode_slot fs n * 128"
  let ?buf = "wr_bytes (blk_at fs ?k) ?s (take 128 (encode_inode ino))"
  have r: "r = 0" and fs': "fs' = put_blk fs ?k ?buf"
    using w v by (simp_all add: ext2_write_inode_eq[OF ok])
  have inr: "blk_in_range fs ?k" using v by (simp add: inode_valid_def)
  have len: "length (blk_at fs ?k) = unat (block_size fs)"
    using ok inr by (rule length_blk_at)
  have le: "length (encode_inode ino) = 128" using io by (rule length_encode_inode)
  have sb: "?s + 128 \<le> length (blk_at fs ?k)"
    using inode_slot_bound[OF ok, of n] len by simp
  have "blk_at fs' ?k = ?buf"
    unfolding fs' using ok inr len by (intro blk_at_put_blk_same) simp_all
  moreover have "rd_bytes ?buf ?s 128 = encode_inode ino"
    using rd_bytes_wr_bytes_same[of ?s "encode_inode ino" "blk_at fs ?k"] sb le by simp
  ultimately have "ext2_read_inode fs' n = Some (decode_inode (encode_inode ino))"
    using ok v by (simp add: ext2_read_inode_eq fs')
  then show ?thesis using r ok io by (simp add: decode_encode_inode fs')
qed

lemma ext2_read_inode_valid:
  "fs_ok fs \<Longrightarrow> ext2_read_inode fs n = Some ino \<Longrightarrow> inode_valid fs n \<and> inode_ok ino"
  by (auto simp: ext2_read_inode_eq split: if_splits)

section \<open>Claims about the block device\<close>

text \<open>
  A request whose range \<open>[block, block + count)\<close> leaves the device is refused, and nothing
  changes, whenever the sum \<open>block + count\<close> fits in 32 bits.
\<close>

lemma ramdisk_out_of_range_refused:
  assumes "\<not> request_in_range rd b c" and "unat b + unat c < 2 ^ 32"
  shows "ramdisk_write rd b c buf = (-1, rd) \<and> fst (ramdisk_read rd b c) = -1"
proof -
  have "unat (b + c) = unat b + unat c" using assms(2) by (simp add: unat_word_ariths)
  then have "b \<ge> block_count rd \<or> b + c > block_count rd"
    using assms(1) by (auto simp: request_in_range_def word_le_nat_alt word_less_nat_alt)
  then show ?thesis by (auto simp: ramdisk_write_def ramdisk_read_def)
qed

text \<open>A RAM disk of two 512-byte blocks, all zero.\<close>

definition small_disk :: ramdisk_data where
  "small_disk = \<lparr> data = replicate 1024 0, rd_size = 1024, block_count = 2 \<rparr>"

text \<open>
  C6 (every read or write whose range is not inside the device fails and leaves the
  buffer of the device unchanged) does not hold of the code: the second range test adds
  \<open>block + count\<close> in \<open>uint32_t\<close>. On the two-block disk the request for block 1 and
  \<open>0xFFFFFFFF\<close> blocks is not in range, yet the sum wraps to 0, both \<open>ramdisk_read\<close> and
  \<open>ramdisk_write\<close> return 0, and the write replaces the second block of the device with the
  caller's bytes.
\<close>

theorem ramdisk_range_check_wraps:
  "\<not> request_in_range small_disk 1 0xFFFFFFFF
   \<and> fst (ramdisk_read small_disk 1 0xFFFFFFFF) = 0
   \<and> fst (ramdisk_write small_disk 1 0xFFFFFFFF (replicate 512 0xAA)) = 0
   \<and> data (snd (ramdisk_write small_disk 1 0xFFFFFFFF (replicate 512 0xAA)))
       = replicate 512 0 @ replicate 512 0xAA"
  by (simp add: request_in_range_def small_disk_def ramdisk_read_def ramdisk_write_def
                RAMDISK_BLOCK_SIZE_def memcpy_local_def wr_bytes_def word_le_nat_alt
                word_less_nat_alt)

section \<open>A concrete filesystem image\<close>

text \<open>
  The image the closed theorems below run on: 24 blocks of 1024 bytes, one block group,
  the block bitmap in block 3, the inode bitmap in block 4, 32 inodes in blocks 5 to 8 and
  the root directory in block 9. The device is the concatenation of its blocks, so a block
  read is a list lookup and a block write a list update.
\<close>

lemma take_drop_concat_block:
  assumes "\<forall>b\<in>set bs. length b = n" and "k < length bs"
  shows "take n (drop (n * k) (concat bs)) = bs ! k"
  using assms
proof (induction bs arbitrary: k)
  case Nil
  then show ?case by simp
next
  case (Cons b bs)
  show ?case
  proof (cases k)
    case 0
    then show ?thesis using Cons.prems by simp
  next
    case (Suc j)
    then show ?thesis using Cons by simp
  qed
qed

lemma length_concat_blocks:
  "\<forall>b\<in>set bs. length b = n \<Longrightarrow> length (concat bs) = n * length bs"
  by (induction bs) auto

lemma wr_bytes_concat_block:
  assumes "\<forall>b\<in>set bs. length b = n" and "k < length bs" and "length buf = n"
  shows "wr_bytes (concat bs) (n * k) buf = concat (bs[k := buf])"
  using assms
proof (induction bs arbitrary: k)
  case Nil
  then show ?case by simp
next
  case (Cons b bs)
  show ?case
  proof (cases k)
    case 0
    then show ?thesis using Cons.prems by (simp add: wr_bytes_def)
  next
    case (Suc j)
    have ih: "wr_bytes (concat bs) (n * j) buf = concat (bs[j := buf])"
      using Cons Suc by simp
    have len: "length (concat bs) = n * length bs"
      using Cons.prems(1) by (intro length_concat_blocks) simp
    have "n * j + n \<le> n * length bs"
      using Cons.prems(2) Suc by (metis Suc_less_SucD length_Cons mult_Suc_right Suc_leI mult_le_mono2 add.commute)
    then have inr: "n * j + length buf \<le> length (concat bs)"
      using len Cons.prems(3) by simp
    have "wr_bytes (b @ concat bs) (n + n * j) buf = b @ wr_bytes (concat bs) (n * j) buf"
      using inr Cons.prems(1) by (simp add: wr_bytes_in_range add.assoc)
    then show ?thesis using Suc ih by simp
  qed
qed

definition dirent :: "u32 \<Rightarrow> u16 \<Rightarrow> u8 \<Rightarrow> u8 list \<Rightarrow> u8 list" where
  "dirent ino rec_len ftype name =
     enc32 ino @ enc16 rec_len @ [of_nat (length name), ftype] @ name
       @ replicate (unat rec_len - 8 - length name) 0"

lemma length_dirent: "8 + length name \<le> unat r \<Longrightarrow> length (dirent i r t name) = unat r"
  by (simp add: dirent_def)

lemma rd8_Cons_0 [simp]: "rd8 (x # xs) 0 = x"
  by (simp add: rd8_def)

lemma rd8_Cons_Suc [simp]: "rd8 (x # xs) (Suc n) = rd8 xs n"
  by (simp add: rd8_def)

lemma rd8_Cons_numeral [simp]: "rd8 (x # xs) (numeral k) = rd8 xs (pred_numeral k)"
  by (simp add: rd8_def numeral_eq_Suc)

lemma rd8_Nil [simp]: "rd8 [] n = 0"
  by (simp add: rd8_def)

lemma de_dirent [simp]:
  "de_inode (dirent i r t name @ rest) 0 = i"
  "de_rec_len (dirent i r t name @ rest) 0 = r"
  "de_name_len (dirent i r t name @ rest) 0 = of_nat (length name)"
  "de_file_type (dirent i r t name @ rest) 0 = t"
  by (simp_all add: dirent_def de_inode_def de_rec_len_def de_name_len_def de_file_type_def)

lemma de_name_dirent [simp]:
  "length name < 256 \<Longrightarrow> de_name (dirent i r t name @ rest) 0 = name"
proof -
  assume a: "length name < 256"
  have "de_name_len (dirent i r t name @ rest) 0 = of_nat (length name)" by simp
  moreover have "unat (of_nat (length name) :: u8) = length name"
    using a by (simp add: unat_of_nat)
  moreover have "rd_bytes (dirent i r t name @ rest) 8 (length name) = name"
    by (simp add: rd_bytes_def dirent_def)
  ultimately show ?thesis by (simp add: de_name_def)
qed

lemmas de_dirent_last [simp] = de_dirent[where rest="[]", simplified]
lemmas de_name_dirent_last [simp] = de_name_dirent[where rest="[]", simplified]

lemma de_skip:
  assumes "length xs \<le> off"
  shows "de_inode (xs @ ys) off = de_inode ys (off - length xs)"
    and "de_rec_len (xs @ ys) off = de_rec_len ys (off - length xs)"
    and "de_name_len (xs @ ys) off = de_name_len ys (off - length xs)"
    and "de_file_type (xs @ ys) off = de_file_type ys (off - length xs)"
    and "de_name (xs @ ys) off = de_name ys (off - length xs)"
  using assms
  by (simp_all add: de_inode_def de_rec_len_def de_name_len_def de_file_type_def de_name_def
                    rd_bytes_def)

definition test_sb :: "u32 \<Rightarrow> u32 \<Rightarrow> ext2_superblock" where
  "test_sb fb fi =
     \<lparr> s_inodes_count = 32, s_blocks_count = 24, s_r_blocks_count = 0,
       s_free_blocks_count = fb, s_free_inodes_count = fi, s_first_data_block = 1,
       s_log_block_size = 0, s_log_frag_size = 0, s_blocks_per_group = 8192,
       s_frags_per_group = 8192, s_inodes_per_group = 32, s_mtime = 0, s_wtime = 0,
       s_mnt_count = 0, s_max_mnt_count = 0xFFFF, s_magic = 0xEF53, s_state = 1,
       s_errors = 1, s_minor_rev_level = 0, s_lastcheck = 0, s_checkinterval = 0,
       s_creator_os = 0, s_rev_level = 0, s_def_resuid = 0, s_def_resgid = 0 \<rparr>"

definition test_bgd :: "u16 \<Rightarrow> u16 \<Rightarrow> ext2_block_group_desc" where
  "test_bgd gb gi =
     \<lparr> bg_block_bitmap = 3, bg_inode_bitmap = 4, bg_inode_table = 5,
       bg_free_blocks_count = gb, bg_free_inodes_count = gi, bg_used_dirs_count = 1,
       bg_pad = 0 \<rparr>"

definition mk_fs :: "u32 \<Rightarrow> u16 \<Rightarrow> u32 \<Rightarrow> u16 \<Rightarrow> u8 list list \<Rightarrow> ext2_fs" where
  "mk_fs fb gb fi gi blocks =
     \<lparr> device = \<lparr> data = concat blocks, rd_size = 24576, block_count = 48 \<rparr>,
       superblock = test_sb fb fi, block_groups = [test_bgd gb gi], block_size = 1024,
       blocks_per_group = 8192, inodes_per_group = 32, num_block_groups = 1 \<rparr>"

definition blocks_ok :: "u8 list list \<Rightarrow> bool" where
  "blocks_ok blocks = (length blocks = 24 \<and> (\<forall>b\<in>set blocks. length b = 1024))"

definition itable :: "ext2_inode list \<Rightarrow> u8 list" where
  "itable inos = concat (map encode_inode inos)"

lemma mk_fs_fields [simp]:
  "block_size (mk_fs fb gb fi gi bs) = 1024"
  "blocks_per_group (mk_fs fb gb fi gi bs) = 8192"
  "inodes_per_group (mk_fs fb gb fi gi bs) = 32"
  "num_block_groups (mk_fs fb gb fi gi bs) = 1"
  "block_groups (mk_fs fb gb fi gi bs) = [test_bgd gb gi]"
  "superblock (mk_fs fb gb fi gi bs) = test_sb fb fi"
  "block_count (device (mk_fs fb gb fi gi bs)) = 48"
  "data (device (mk_fs fb gb fi gi bs)) = concat bs"
  by (simp_all add: mk_fs_def)

lemma test_bgd_fields [simp]:
  "bg_block_bitmap (test_bgd gb gi) = 3"
  "bg_inode_bitmap (test_bgd gb gi) = 4"
  "bg_inode_table (test_bgd gb gi) = 5"
  "bg_free_blocks_count (test_bgd gb gi) = gb"
  "bg_free_inodes_count (test_bgd gb gi) = gi"
  by (simp_all add: test_bgd_def)

lemma test_sb_fields [simp]:
  "s_first_data_block (test_sb fb fi) = 1"
  "s_free_blocks_count (test_sb fb fi) = fb"
  "s_free_inodes_count (test_sb fb fi) = fi"
  by (simp_all add: test_sb_def)

lemma length_concat_ok: "blocks_ok bs \<Longrightarrow> length (concat bs) = 24576"
  using length_concat_blocks[of bs 1024] by (simp add: blocks_ok_def)

lemma fs_ok_mk_fs [simp]: "blocks_ok bs \<Longrightarrow> fs_ok (mk_fs fb gb fi gi bs)"
  by (simp add: fs_ok_def ramdisk_ok_def length_concat_ok mk_fs_def)

lemma dev_block_mk_fs [simp]: "dev_block (mk_fs fb gb fi gi bs) k = k * 2"
  by (simp add: dev_block_def)

lemma blk_in_range_mk_fs [simp]:
  "blk_in_range (mk_fs fb gb fi gi bs) k = (unat (k * 2) + 2 \<le> 48)"
  by (simp add: blk_in_range_def)

lemma unat_times2: "unat k < 24 \<Longrightarrow> unat (k * 2 :: u32) = 2 * unat k"
  by (simp add: unat_word_ariths)

lemma blk_at_mk_fs:
  assumes "blocks_ok bs" and "unat k < 24"
  shows "blk_at (mk_fs fb gb fi gi bs) k = bs ! unat k"
proof -
  have "take 1024 (drop (1024 * unat k) (concat bs)) = bs ! unat k"
    using assms by (intro take_drop_concat_block) (simp_all add: blocks_ok_def)
  then show ?thesis using assms(2) by (simp add: blk_at_def rd_bytes_def unat_times2)
qed

lemma put_blk_mk_fs:
  assumes "blocks_ok bs" and "unat k < 24" and "length buf = 1024"
  shows "put_blk (mk_fs fb gb fi gi bs) k buf = mk_fs fb gb fi gi (bs[unat k := buf])"
proof -
  have "wr_bytes (concat bs) (1024 * unat k) buf = concat (bs[unat k := buf])"
    using assms by (intro wr_bytes_concat_block) (simp_all add: blocks_ok_def)
  then show ?thesis using assms(2,3) by (simp add: put_blk_def mk_fs_def unat_times2 dev_block_def)
qed

lemma blocks_ok_update: "blocks_ok bs \<Longrightarrow> length buf = 1024 \<Longrightarrow> blocks_ok (bs[k := buf])"
  by (auto simp: blocks_ok_def dest: set_update_subset_insert[THEN subsetD])

lemma counters_mk_fs [simp]:
  "dec_free_blocks (mk_fs fb gb fi gi bs) 0 = mk_fs (fb - 1) (gb - 1) fi gi bs"
  "inc_free_blocks (mk_fs fb gb fi gi bs) 0 = mk_fs (fb + 1) (gb + 1) fi gi bs"
  "dec_free_inodes (mk_fs fb gb fi gi bs) 0 = mk_fs fb gb (fi - 1) (gi - 1) bs"
  "inc_free_inodes (mk_fs fb gb fi gi bs) 0 = mk_fs fb gb (fi + 1) (gi + 1) bs"
  by (simp_all add: dec_free_blocks_def inc_free_blocks_def dec_free_inodes_def
                    inc_free_inodes_def mk_fs_def test_bgd_def test_sb_def)

lemma length_itable: "\<forall>i\<in>set inos. inode_ok i \<Longrightarrow> length (itable inos) = 128 * length inos"
  using length_concat_blocks[of "map encode_inode inos" 128]
  by (simp add: itable_def length_encode_inode)

lemma rd_itable:
  assumes "\<forall>i\<in>set inos. inode_ok i" and "k < length inos"
  shows "decode_inode (rd_bytes (itable inos) (k * 128) 128) = inos ! k"
proof -
  have "take 128 (drop (128 * k) (concat (map encode_inode inos))) = map encode_inode inos ! k"
    using assms by (intro take_drop_concat_block) (auto simp: length_encode_inode)
  then show ?thesis
    using assms by (simp add: itable_def rd_bytes_def decode_encode_inode mult.commute)
qed

lemma wr_itable:
  assumes "\<forall>i\<in>set inos. inode_ok i" and "k < length inos" and "inode_ok ino"
  shows "wr_bytes (itable inos) (k * 128) (take 128 (encode_inode ino)) = itable (inos[k := ino])"
proof -
  have "wr_bytes (concat (map encode_inode inos)) (128 * k) (encode_inode ino)
          = concat ((map encode_inode inos)[k := encode_inode ino])"
    using assms by (intro wr_bytes_concat_block) (auto simp: length_encode_inode)
  then show ?thesis
    using assms(3) by (simp add: itable_def length_encode_inode map_update mult.commute)
qed


definition zero_block :: "u8 list" where
  "zero_block = replicate 1024 0"

definition block_bitmap0 :: "u8 list" where
  "block_bitmap0 = [0xFF, 0x03, 0x80] @ replicate 1021 0xFF"

definition inode_bitmap0 :: "u8 list" where
  "inode_bitmap0 = [0xFF, 0xFF, 0x0F, 0x00] @ replicate 1020 0xFF"

definition mk_inode :: "u16 \<Rightarrow> u32 \<Rightarrow> u16 \<Rightarrow> u32 list \<Rightarrow> ext2_inode" where
  "mk_inode mode sz links blocks =
     zero_inode\<lparr>i_mode := mode, i_size := sz, i_links_count := links, i_block := blocks\<rparr>"

definition root_inode :: ext2_inode where
  "root_inode = mk_inode 0x41ED 1024 2 (9 # replicate 14 0)"

definition file_inode0 :: ext2_inode where
  "file_inode0 = mk_inode 0x81A4 5 1 (10 # replicate 14 0)"

text \<open>A fast symlink whose target is "/" followed by one byte.\<close>

definition link_inode :: "u8 \<Rightarrow> ext2_inode" where
  "link_inode c = mk_inode 0xA1FF 2 1 (le32 [0x2F, c] 0 # replicate 14 0)"

definition inodes_1_8 :: "ext2_inode list" where
  "inodes_1_8 = [zero_inode, root_inode, zero_inode, zero_inode, zero_inode, zero_inode,
                 zero_inode, zero_inode]"

definition inodes_9_16 :: "ext2_inode list" where
  "inodes_9_16 = [zero_inode, zero_inode, zero_inode, file_inode0, link_inode 0x62,
                  link_inode 0x63, link_inode 0x64, link_inode 0x65]"

definition inodes_17_24 :: "ext2_inode list" where
  "inodes_17_24 = [link_inode 0x66, link_inode 0x67, link_inode 0x68, link_inode 0x78,
                   zero_inode, zero_inode, zero_inode, zero_inode]"

definition inodes_25_32 :: "ext2_inode list" where
  "inodes_25_32 = replicate 8 zero_inode"

definition rootdir0 :: "u8 list" where
  "rootdir0 = dirent 2 12 2 [0x2E] @ dirent 2 12 2 [0x2E, 0x2E] @ dirent 12 12 1 [0x78]
      @ dirent 13 12 7 [0x61] @ dirent 14 12 7 [0x62] @ dirent 15 12 7 [0x63]
      @ dirent 16 12 7 [0x64] @ dirent 17 12 7 [0x65] @ dirent 18 12 7 [0x66]
      @ dirent 19 12 7 [0x67] @ dirent 20 904 7 [0x68]"

definition file_data0 :: "u8 list" where
  "file_data0 = [0x68, 0x65, 0x6C, 0x6C, 0x6F] @ replicate 1019 0"

definition image0 :: "u8 list list" where
  "image0 = [zero_block, zero_block, zero_block, block_bitmap0, inode_bitmap0,
             itable inodes_1_8, itable inodes_9_16, itable inodes_17_24, itable inodes_25_32,
             rootdir0, file_data0]
            @ replicate 13 zero_block"

definition fs0 :: ext2_fs where
  "fs0 = mk_fs 13 13 12 12 image0"

lemma inode_ok_mk_inode [simp]: "inode_ok (mk_inode m s l b) = (length b = 15)"
  by (simp add: mk_inode_def inode_ok_def zero_inode_def decode_inode_def)

lemma inode_ok_zero [simp]: "inode_ok zero_inode"
  by (simp add: zero_inode_def)

lemma inode_ok_test [simp]: "inode_ok root_inode" "inode_ok file_inode0" "inode_ok (link_inode c)"
  by (simp_all add: root_inode_def file_inode0_def link_inode_def)

lemma length_rootdir0 [simp]: "length rootdir0 = 1024"
  by (simp add: rootdir0_def length_dirent)

lemma blocks_ok_image0 [simp]: "blocks_ok image0"
  by (simp add: blocks_ok_def image0_def zero_block_def block_bitmap0_def inode_bitmap0_def
                length_itable inodes_1_8_def inodes_9_16_def inodes_17_24_def inodes_25_32_def
                file_data0_def)

lemma image0_nth [simp]:
  "image0 ! 3 = block_bitmap0" "image0 ! 4 = inode_bitmap0"
  "image0 ! 5 = itable inodes_1_8" "image0 ! 6 = itable inodes_9_16"
  "image0 ! 7 = itable inodes_17_24" "image0 ! 8 = itable inodes_25_32"
  "image0 ! 9 = rootdir0" "image0 ! 10 = file_data0" "image0 ! 11 = zero_block"
  "image0 ! 12 = zero_block"
  by (simp_all add: image0_def)

lemma length_image0 [simp]: "length image0 = 24"
  by (simp add: image0_def)

lemma inodes_ok_test [simp]:
  "\<forall>i\<in>set inodes_1_8. inode_ok i" "\<forall>i\<in>set inodes_9_16. inode_ok i"
  "\<forall>i\<in>set inodes_17_24. inode_ok i" "\<forall>i\<in>set inodes_25_32. inode_ok i"
  "length inodes_1_8 = 8" "length inodes_9_16 = 8" "length inodes_17_24 = 8"
  "length inodes_25_32 = 8"
  by (simp_all add: inodes_1_8_def inodes_9_16_def inodes_17_24_def inodes_25_32_def)

lemma inode_loc_mk_fs:
  assumes "n \<noteq> 0" and "unat n \<le> 32"
  shows "inode_valid (mk_fs fb gb fi gi bs) n"
    and "unat (inode_block (mk_fs fb gb fi gi bs) n) = 5 + (unat n - 1) div 8"
    and "inode_slot (mk_fs fb gb fi gi bs) n = (unat n - 1) mod 8"
proof -
  have m: "unat (n - 1) = unat n - 1" using assms(1) by (simp add: unat_minus_one)
  then have lt: "unat (n - 1) < 32" using assms by (simp add: unat_gt_0)
  have "unat ((n - 1) div 32) = 0" using lt by (simp add: unat_div)
  then have d: "(n - 1) div 32 = 0" by (simp add: unat_0_iff)
  have "unat ((n - 1) mod 32) = unat (n - 1)" using lt by (simp add: unat_mod)
  then have md: "(n - 1) mod 32 = n - 1" by (simp add: word_unat_eq_iff)
  have q: "unat ((n - 1) div 8) = (unat n - 1) div 8" by (simp add: unat_div m)
  then have q4: "unat ((n - 1) div 8) < 4" using lt m by simp
  have b: "unat (5 + (n - 1) div 8) = 5 + (unat n - 1) div 8"
    using q q4 by (simp add: unat_word_ariths)
  show "unat (inode_block (mk_fs fb gb fi gi bs) n) = 5 + (unat n - 1) div 8"
    using b by (simp add: inode_block_def d md)
  show "inode_slot (mk_fs fb gb fi gi bs) n = (unat n - 1) mod 8"
    by (simp add: inode_slot_def md unat_mod m)
  have "unat ((5 + (n - 1) div 8) * 2) = 2 * (5 + (unat n - 1) div 8)"
    using b q q4 by (simp add: unat_word_ariths)
  then show "inode_valid (mk_fs fb gb fi gi bs) n"
    using assms(1) q q4 by (simp add: inode_valid_def inode_block_def d md)
qed

lemma read_inode_mk_fs:
  assumes "blocks_ok bs" and "n \<noteq> 0" and "unat n \<le> 32"
    and "bs ! (5 + (unat n - 1) div 8) = itable inos"
    and "length inos = 8" and "\<forall>i\<in>set inos. inode_ok i"
  shows "ext2_read_inode (mk_fs fb gb fi gi bs) n = Some (inos ! ((unat n - 1) mod 8))"
proof -
  let ?fs = "mk_fs fb gb fi gi bs"
  have k: "unat (inode_block ?fs n) < 24"
    using inode_loc_mk_fs(2)[OF assms(2,3), of fb gb fi gi bs] assms(3) by simp
  have "blk_at ?fs (inode_block ?fs n) = itable inos"
    using blk_at_mk_fs[OF assms(1) k] assms(4) inode_loc_mk_fs(2)[OF assms(2,3), of fb gb fi gi bs]
    by simp
  then show ?thesis
    using assms rd_itable[of inos "(unat n - 1) mod 8"]
    by (simp add: ext2_read_inode_eq inode_loc_mk_fs)
qed

lemma write_inode_mk_fs:
  assumes "blocks_ok bs" and "n \<noteq> 0" and "unat n \<le> 32"
    and "bs ! (5 + (unat n - 1) div 8) = itable inos"
    and "length inos = 8" and "\<forall>i\<in>set inos. inode_ok i" and "inode_ok ino"
  shows "ext2_write_inode (mk_fs fb gb fi gi bs) n ino =
           (0, mk_fs fb gb fi gi (bs[5 + (unat n - 1) div 8 := itable (inos[(unat n - 1) mod 8 := ino])]))"
proof -
  let ?fs = "mk_fs fb gb fi gi bs"
  have k: "unat (inode_block ?fs n) < 24"
    using inode_loc_mk_fs(2)[OF assms(2,3), of fb gb fi gi bs] assms(3) by simp
  have b: "blk_at ?fs (inode_block ?fs n) = itable inos"
    using blk_at_mk_fs[OF assms(1) k] assms(4) inode_loc_mk_fs(2)[OF assms(2,3), of fb gb fi gi bs]
    by simp
  have w: "wr_bytes (itable inos) ((unat n - 1) mod 8 * 128) (take 128 (encode_inode ino))
             = itable (inos[(unat n - 1) mod 8 := ino])"
    using assms by (intro wr_itable) simp_all
  have l: "length (itable (inos[(unat n - 1) mod 8 := ino])) = 1024"
    using assms length_itable[of "inos[(unat n - 1) mod 8 := ino]"]
    by (auto dest: set_update_subset_insert[THEN subsetD])
  show ?thesis
    using assms(1) put_blk_mk_fs[OF assms(1) k l, of fb gb fi gi]
    by (simp add: ext2_write_inode_eq inode_loc_mk_fs[OF assms(2,3)] b w[simplified])
qed

lemma read_root: "ext2_read_inode fs0 2 = Some root_inode"
  by (simp add: fs0_def read_inode_mk_fs[where inos=inodes_1_8] inodes_1_8_def)

lemma read_x: "ext2_read_inode fs0 12 = Some file_inode0"
  by (simp add: fs0_def read_inode_mk_fs[where inos=inodes_9_16] inodes_9_16_def)

lemma read_blocks_mk_fs:
  assumes "blocks_ok bs" and "unat k < 24"
  shows "ext2_read_blocks (mk_fs fb gb fi gi bs) k 1 = Some (bs ! unat k)"
proof -
  have "unat (k * 2) = 2 * unat k" using assms(2) by (rule unat_times2)
  then show ?thesis using assms by (simp add: ext2_read_blocks_eq blk_at_mk_fs)
qed

lemma write_blocks_mk_fs:
  assumes "blocks_ok bs" and "unat k < 24" and "length buf = 1024"
  shows "ext2_write_blocks (mk_fs fb gb fi gi bs) k 1 buf = (0, mk_fs fb gb fi gi (bs[unat k := buf]))"
proof -
  have "unat (k * 2) = 2 * unat k" using assms(2) by (rule unat_times2)
  then show ?thesis using assms by (simp add: ext2_write_blocks_eq put_blk_mk_fs)
qed

lemma i_block_test [simp]:
  "i_block (mk_inode m s l b) = b" "i_size (mk_inode m s l b) = s" "i_mode (mk_inode m s l b) = m"
  "i_links_count (mk_inode m s l b) = l"
  by (simp_all add: mk_inode_def)

lemma read_rootdir: "ext2_read_file fs0 root_inode 0 1024 = (1024, rootdir0)"
  by (simp add: ext2_read_file_def root_inode_def fs0_def ext2_read_data_block_def
                read_blocks_mk_fs chunk_len_def kmalloc_ok_def rd_bytes_def)

lemma find_x: "ext2_find_dir_entry fs0 root_inode [0x78] = Some 12"
  using read_rootdir
  by (simp add: ext2_find_dir_entry_def root_inode_def EXT2_S_IFDIR_def kmalloc_ok_def
                rootdir0_def de_skip length_dirent strlen_local_def)

lemma path_x: "ext2_path_to_inode fs0 [0x2F, 0x78] = 12"
  using find_x read_root
  by (simp add: ext2_path_to_inode_def skip_leading_slash_def lookup_component_def EXT2_ROOT_INO_def)

section \<open>Claims about chmod\<close>

lemma mask_modes: "(0x1FF :: u16) = mask 9" "(0xF000 :: u16) = NOT (mask 12)"
  "(0x0E00 :: u16) = push_bit 9 (mask 3)"
  by (simp_all add: mask_eq_exp_minus_1)

lemma chmod_mode_bits:
  fixes a m :: u16
  shows "((a AND 0xF000) OR (m AND 0x1FF)) AND 0x1FF = m AND 0x1FF"
    and "((a AND 0xF000) OR (m AND 0x1FF)) AND 0xF000 = a AND 0xF000"
    and "((a AND 0xF000) OR (m AND 0x1FF)) AND 0x0E00 = 0"
  unfolding mask_modes
  by (rule bit_word_eqI; auto simp: bit_simps)+

lemma inode_ok_update_simps [simp]:
  "inode_ok (ino\<lparr>i_mode := m\<rparr>) = inode_ok ino"
  "inode_ok (ino\<lparr>i_ctime := t\<rparr>) = inode_ok ino"
  "inode_ok (ino\<lparr>i_atime := t\<rparr>) = inode_ok ino"
  "inode_ok (ino\<lparr>i_mtime := t\<rparr>) = inode_ok ino"
  "inode_ok (ino\<lparr>i_size := s\<rparr>) = inode_ok ino"
  "inode_ok (ino\<lparr>i_links_count := l\<rparr>) = inode_ok ino"
  "inode_ok (ino\<lparr>i_uid := u\<rparr>) = inode_ok ino"
  "inode_ok (ino\<lparr>i_gid := g\<rparr>) = inode_ok ino"
  "inode_ok (ino\<lparr>i_blocks := b\<rparr>) = inode_ok ino"
  by (simp_all add: inode_ok_def)

lemma vfs_chmod_result:
  assumes "fs_ok fs" and "ext2_path_to_inode fs path = n" and "n \<noteq> 0"
    and "ext2_read_inode fs n = Some old"
  shows "\<exists>fs'. vfs_chmod (Some fs) path mode ticks = (0, Some fs') \<and> fs_ok fs'
           \<and> ext2_read_inode fs' n =
               Some (old\<lparr>i_mode := (i_mode old AND 0xF000) OR (mode AND 0x1FF),
                         i_ctime := ticks div 100\<rparr>)"
proof -
  let ?new = "old\<lparr>i_mode := (i_mode old AND 0xF000) OR (mode AND 0x1FF), i_ctime := ticks div 100\<rparr>"
  have v: "inode_valid fs n" and io: "inode_ok old"
    using ext2_read_inode_valid[OF assms(1,4)] by simp_all
  obtain r fs' where w: "ext2_write_inode fs n ?new = (r, fs')" by fastforce
  have "r = 0 \<and> fs_ok fs' \<and> ext2_read_inode fs' n = Some ?new"
    using assms(1) v _ w by (rule ext2_read_after_write_inode) (simp add: io)
  then show ?thesis
    using assms(2,3,4) w by (simp add: vfs_chmod_def Let_def)
qed

text \<open>
  C7. For every path that resolves to an inode and every mode argument \<open>m\<close>, \<open>vfs_chmod\<close>
  succeeds and the inode read back afterwards has the low 9 bits of \<open>m\<close> as its permission
  bits, the file-type bits of the old mode, \<open>system_ticks / 100\<close> as its ctime, and the old
  uid, gid, size, links count and block pointers.
\<close>

theorem vfs_chmod_frame:
  assumes "fs_ok fs" and "ext2_path_to_inode fs path = n" and "n \<noteq> 0"
    and "ext2_read_inode fs n = Some old"
  shows "\<exists>fs' new. vfs_chmod (Some fs) path mode ticks = (0, Some fs')
           \<and> ext2_read_inode fs' n = Some new
           \<and> i_mode new AND 0x1FF = mode AND 0x1FF
           \<and> i_mode new AND 0xF000 = i_mode old AND 0xF000
           \<and> i_ctime new = ticks div 100
           \<and> i_uid new = i_uid old \<and> i_gid new = i_gid old \<and> i_size new = i_size old
           \<and> i_links_count new = i_links_count old \<and> i_block new = i_block old"
proof -
  obtain fs' where r: "vfs_chmod (Some fs) path mode ticks = (0, Some fs')"
    "ext2_read_inode fs' n =
       Some (old\<lparr>i_mode := (i_mode old AND 0xF000) OR (mode AND 0x1FF), i_ctime := ticks div 100\<rparr>)"
    using vfs_chmod_result[OF assms] by blast
  show ?thesis
    using r by (auto simp: chmod_mode_bits)
qed

text \<open>
  C9. After \<open>vfs_chmod\<close> the stored mode is \<open>(old_mode & 0xF000) | (mode & 0777)\<close>; the
  setuid, setgid and sticky bits (mask \<open>0x0E00\<close>) are clear whatever the old mode and the
  argument were.
\<close>

theorem vfs_chmod_mode:
  assumes "fs_ok fs" and "ext2_path_to_inode fs path = n" and "n \<noteq> 0"
    and "ext2_read_inode fs n = Some old"
  shows "\<exists>fs' new. vfs_chmod (Some fs) path mode ticks = (0, Some fs')
           \<and> ext2_read_inode fs' n = Some new
           \<and> i_mode new = (i_mode old AND 0xF000) OR (mode AND 0x1FF)
           \<and> i_mode new AND 0x0E00 = 0"
proof -
  obtain fs' where r: "vfs_chmod (Some fs) path mode ticks = (0, Some fs')"
    "ext2_read_inode fs' n =
       Some (old\<lparr>i_mode := (i_mode old AND 0xF000) OR (mode AND 0x1FF), i_ctime := ticks div 100\<rparr>)"
    using vfs_chmod_result[OF assms] by blast
  show ?thesis
    using r by (auto simp: chmod_mode_bits)
qed

lemma rd8_replicate [simp]: "rd8 (replicate n c) k = (if k < n then c else 0)"
  by (simp add: rd8_def)

lemma zero_inode_fields [simp]:
  "i_mode zero_inode = 0" "i_uid zero_inode = 0" "i_size zero_inode = 0" "i_atime zero_inode = 0"
  "i_ctime zero_inode = 0" "i_mtime zero_inode = 0" "i_dtime zero_inode = 0"
  "i_gid zero_inode = 0" "i_links_count zero_inode = 0" "i_blocks zero_inode = 0"
  "i_block zero_inode = replicate 15 0"
  by (simp_all add: zero_inode_def decode_inode_def le16_def le32_def map_replicate_const)

lemma mk_inode_fields [simp]:
  "i_uid (mk_inode m s l b) = 0" "i_gid (mk_inode m s l b) = 0"
  "i_atime (mk_inode m s l b) = 0" "i_ctime (mk_inode m s l b) = 0"
  "i_mtime (mk_inode m s l b) = 0" "i_blocks (mk_inode m s l b) = 0"
  by (simp_all add: mk_inode_def)

lemma fs_ok_fs0 [simp]: "fs_ok fs0"
  by (simp add: fs0_def)

theorem vfs_chmod_frame_witness:
  "\<exists>fs' new. vfs_chmod (Some fs0) [0x2F, 0x78] 0x180 700 = (0, Some fs')
     \<and> ext2_read_inode fs' 12 = Some new
     \<and> i_mode new AND 0x1FF = 0x180 \<and> i_mode new AND 0xF000 = 0x8000 \<and> i_ctime new = 7
     \<and> i_uid new = 0 \<and> i_gid new = 0 \<and> i_size new = 5 \<and> i_links_count new = 1
     \<and> i_block new = 10 # replicate 14 0"
  using vfs_chmod_frame[OF fs_ok_fs0 path_x _ read_x, of "0x180" 700]
  by (simp add: file_inode0_def)

theorem vfs_chmod_mode_witness:
  "\<exists>fs' new. vfs_chmod (Some fs0) [0x2F, 0x78] 0xFFFF 700 = (0, Some fs')
     \<and> ext2_read_inode fs' 12 = Some new \<and> i_mode new = 0x81FF \<and> i_mode new AND 0x0E00 = 0"
  using vfs_chmod_mode[OF fs_ok_fs0 path_x _ read_x, of "0xFFFF" 700]
  by (simp add: file_inode0_def)

section \<open>Claims about truncate\<close>

text \<open>An open handle on the file "/x" of the image.\<close>

definition handle_x :: vfs_file where
  "handle_x = \<lparr> file_inode = 12, file_size = 5, file_type = VFS_TYPE_FILE, file_position = 0,
                 file_is_open = 1 \<rparr>"

text \<open>
  C8. For every open handle and every \<open>new_size\<close> that is at least the size in the on-disk
  inode, \<open>vfs_truncate\<close> returns 0 and changes nothing: the filesystem (and so the on-disk
  inode) and the handle, with its cached size and position, come back as they were.
\<close>

theorem vfs_truncate_grow_is_noop:
  assumes "file_is_open file \<noteq> 0"
    and "ext2_read_inode fs (file_inode file) = Some inode"
    and "new_size \<ge> i_size inode"
  shows "vfs_truncate (Some fs) file new_size = (0, Some fs, file)"
  using assms by (simp add: vfs_truncate_def)

theorem vfs_truncate_grow_is_noop_witness:
  "vfs_truncate (Some fs0) handle_x 5 = (0, Some fs0, handle_x)
   \<and> vfs_truncate (Some fs0) handle_x 4096 = (0, Some fs0, handle_x)"
  using vfs_truncate_grow_is_noop[of handle_x fs0 file_inode0 5]
        vfs_truncate_grow_is_noop[of handle_x fs0 file_inode0 4096]
  by (simp add: handle_x_def read_x file_inode0_def word_le_nat_alt)

section \<open>Claims about the path length limit\<close>

lemma strlen_nat_no_nul: "0 \<notin> set s \<Longrightarrow> strlen_nat s = length s"
  by (induction s) auto

text \<open>
  The split refuses a path of length 0 or more than 255. A length of \<open>2^31\<close> or more reads
  as a negative \<open>int\<close>; then the slash loop does not run and the split fails all the same.
\<close>

lemma split_path_too_long:
  assumes "strlen_nat path = 0 \<or> 255 < strlen_nat path" and "strlen_nat path < 2 ^ 32"
  shows "split_path path = None"
proof -
  let ?n = "strlen_nat path"
  let ?len = "sint (strlen_local path)"
  have len: "?len = signed_take_bit 31 (int ?n)"
    by (simp add: strlen_local_def signed_of_nat)
  consider "?n = 0" | "255 < ?n" "?n < 2 ^ 31" | "2 ^ 31 \<le> ?n"
    using assms(1) by fastforce
  then show ?thesis
  proof cases
    case 1
    then have "strlen_local path = 0" by (simp add: strlen_local_def)
    then show ?thesis by (simp add: split_path_def)
  next
    case 2
    then have "?len = int ?n"
      unfolding len by (intro signed_take_bit_int_eq_self) simp_all
    then show ?thesis using 2 by (simp add: split_path_def)
  next
    case 3
    then have "(2::int) ^ 31 \<le> int ?n" by (metis of_nat_le_iff of_nat_numeral of_nat_power)
    then have "?len \<le> int ?n - 2 ^ Suc 31"
      unfolding len by (rule signed_take_bit_int_less_eq)
    moreover have "int ?n < 2 ^ 32" using assms(2) by (metis of_nat_less_iff of_nat_numeral of_nat_power)
    ultimately have "?len < 0" by simp
    then show ?thesis by (simp add: split_path_def Let_def last_slash_of_def)
  qed
qed

text \<open>
  C10. \<open>vfs_create\<close>, \<open>vfs_unlink\<close> and \<open>vfs_create_symlink\<close> return -1, and leave the
  filesystem as it was, for every path whose length is 0 or more than 255 bytes, whatever
  the lengths of its components. (A C string on this 32-bit target is shorter than \<open>2^32\<close>
  bytes.)
\<close>

theorem long_path_rejected:
  assumes "strlen_nat path = 0 \<or> 255 < strlen_nat path" and "strlen_nat path < 2 ^ 32"
  shows "vfs_create gfs path type ticks = (-1, gfs)
         \<and> vfs_unlink gfs path = (-1, gfs)
         \<and> vfs_create_symlink gfs path target = (-1, gfs)"
  using split_path_too_long[OF assms]
  by (simp add: vfs_create_def vfs_unlink_def vfs_create_symlink_def split: option.splits)

text \<open>The path "/" followed by 255 bytes "a": one component of 255 bytes, 256 bytes in all.\<close>

theorem long_path_rejected_witness:
  "vfs_create (Some fs0) (0x2F # replicate 255 0x61) VFS_TYPE_FILE 0 = (-1, Some fs0)
   \<and> vfs_unlink (Some fs0) (0x2F # replicate 255 0x61) = (-1, Some fs0)
   \<and> vfs_create_symlink (Some fs0) (0x2F # replicate 255 0x61) [0x2F, 0x78] = (-1, Some fs0)"
  using long_path_rejected[of "0x2F # replicate 255 0x61" "Some fs0" VFS_TYPE_FILE 0 "[0x2F, 0x78]"]
  by (simp add: strlen_nat_no_nul)

section \<open>Claims about symlink chains\<close>

lemma bit_u8_high [simp]:
  "\<not> bit (w :: u8) (8 + n)" "\<not> bit (w :: u8) (16 + n)" "\<not> bit (w :: u8) (24 + n)"
  using bit_imp_le_length[of w "8 + n"] bit_imp_le_length[of w "16 + n"]
        bit_imp_le_length[of w "24 + n"]
  by auto

lemma enc32_le32:
  "enc32 (le32 buf off) = [rd8 buf off, rd8 buf (off + 1), rd8 buf (off + 2), rd8 buf (off + 3)]"
  unfolding enc32_def le32_def
  by (auto intro!: bit_word_eqI simp: bit_simps)

lemma read_symlink_fast:
  "ext2_read_symlink fs (link_inode c) 256 = Some [0x2F, c]"
  by (simp add: ext2_read_symlink_def link_inode_def EXT2_S_IFLNK_def enc32_le32 rd_bytes_def)

lemma read_links:
  "ext2_read_inode fs0 13 = Some (link_inode 0x62)" "ext2_read_inode fs0 14 = Some (link_inode 0x63)"
  "ext2_read_inode fs0 15 = Some (link_inode 0x64)" "ext2_read_inode fs0 16 = Some (link_inode 0x65)"
  "ext2_read_inode fs0 17 = Some (link_inode 0x66)" "ext2_read_inode fs0 18 = Some (link_inode 0x67)"
  "ext2_read_inode fs0 19 = Some (link_inode 0x68)" "ext2_read_inode fs0 20 = Some (link_inode 0x78)"
  by (simp_all add: fs0_def read_inode_mk_fs[where inos=inodes_9_16]
                    read_inode_mk_fs[where inos=inodes_17_24] inodes_9_16_def inodes_17_24_def)

lemma find_root0:
  "ext2_find_dir_entry fs0 root_inode [0x61] = Some 13"
  "ext2_find_dir_entry fs0 root_inode [0x62] = Some 14"
  "ext2_find_dir_entry fs0 root_inode [0x63] = Some 15"
  "ext2_find_dir_entry fs0 root_inode [0x64] = Some 16"
  "ext2_find_dir_entry fs0 root_inode [0x65] = Some 17"
  "ext2_find_dir_entry fs0 root_inode [0x66] = Some 18"
  "ext2_find_dir_entry fs0 root_inode [0x67] = Some 19"
  "ext2_find_dir_entry fs0 root_inode [0x68] = Some 20"
  using read_rootdir
  by (simp_all add: ext2_find_dir_entry_def root_inode_def EXT2_S_IFDIR_def kmalloc_ok_def
                rootdir0_def de_skip length_dirent strlen_local_def)

lemma path_root0:
  "ext2_path_to_inode fs0 [0x2F, 0x61] = 13" "ext2_path_to_inode fs0 [0x2F, 0x62] = 14"
  "ext2_path_to_inode fs0 [0x2F, 0x63] = 15" "ext2_path_to_inode fs0 [0x2F, 0x64] = 16"
  "ext2_path_to_inode fs0 [0x2F, 0x65] = 17" "ext2_path_to_inode fs0 [0x2F, 0x66] = 18"
  "ext2_path_to_inode fs0 [0x2F, 0x67] = 19" "ext2_path_to_inode fs0 [0x2F, 0x68] = 20"
  using find_root0 read_root
  by (simp_all add: ext2_path_to_inode_def skip_leading_slash_def lookup_component_def EXT2_ROOT_INO_def)

lemma link_mode [simp]: "i_mode (link_inode c) = 0xA1FF" "i_size (link_inode c) = 2"
  by (simp_all add: link_inode_def)

lemma follow_from_b: "open_follow fs0 14 (link_inode 0x63) 0 = Some (12, file_inode0, 7)"
  by (simp add: EXT2_S_IFLNK_def MAX_SYMLINK_DEPTH_def read_symlink_fast path_root0 path_x
                read_links read_x file_inode0_def)

lemma follow_from_a: "open_follow fs0 13 (link_inode 0x62) 0 = Some (12, file_inode0, 8)"
  by (simp add: EXT2_S_IFLNK_def MAX_SYMLINK_DEPTH_def read_symlink_fast path_root0 path_x
                read_links read_x file_inode0_def)

text \<open>
  C3 (\<open>vfs_open\<close> follows chains of up to 8 symlinks and fails on longer ones) does not hold
  of the code at depth 8. In the image "/a" starts a chain of eight symlinks, "/a" to "/h",
  that ends at the regular file "/x". The loop follows all eight links and reaches the
  file, and the test \<open>depth >= MAX_SYMLINK_DEPTH\<close> after the loop then returns NULL. The
  chain of seven links that starts at "/b" opens inode 12.
\<close>

theorem open_rejects_chain_of_eight:
  "open_follow fs0 13 (link_inode 0x62) 0 = Some (12, file_inode0, 8)
   \<and> i_mode file_inode0 AND 0xF000 = EXT2_S_IFREG
   \<and> vfs_open (Some fs0) [0x2F, 0x61] = None
   \<and> vfs_open (Some fs0) [0x2F, 0x62]
       = Some \<lparr> file_inode = 12, file_size = 5, file_type = VFS_TYPE_FILE, file_position = 0,
                 file_is_open = 1 \<rparr>"
  by (simp add: vfs_open_def path_root0 read_links follow_from_a follow_from_b
                MAX_SYMLINK_DEPTH_def file_inode0_def EXT2_S_IFDIR_def EXT2_S_IFREG_def
           del: open_follow.simps)

section \<open>Claims about slashes in paths\<close>

text \<open>
  Paths that differ only in repeated or trailing slashes: the equivalence generated by
  doubling a slash and by appending one.
\<close>

inductive slash_equiv :: "u8 list \<Rightarrow> u8 list \<Rightarrow> bool" where
  same: "slash_equiv p p"
| double: "slash_equiv (p @ 0x2F # q) (p @ 0x2F # 0x2F # q)"
| trailing: "slash_equiv p (p @ [0x2F])"
| sym: "slash_equiv p q \<Longrightarrow> slash_equiv q p"
| trans: "slash_equiv p q \<Longrightarrow> slash_equiv q r \<Longrightarrow> slash_equiv p r"

lemma path_loop_double_slash:
  "path_loop fs (p @ 0x2F # 0x2F # q) cur acc = path_loop fs (p @ 0x2F # q) cur acc"
  by (induction p arbitrary: cur acc) (auto split: option.splits)

lemma path_loop_trailing_slash:
  "path_loop fs (p @ [0x2F]) cur acc = path_loop fs p cur acc"
  by (induction p arbitrary: cur acc) (auto split: option.splits)

lemma sint_u8_eq: "sint (a :: u8) = sint (b :: u8) \<longleftrightarrow> a = b"
  by (auto dest: signed_word_eqI)

lemma strcmp_slash:
  "strcmp_local p [0x2F] = 0 \<longleftrightarrow> (p = [0x2F] \<or> (\<exists>r. p = 0x2F # 0 # r))"
proof (cases p)
  case Nil
  then show ?thesis by simp
next
  case (Cons a as)
  show ?thesis
  proof (cases "a = 0x2F")
    case True
    then show ?thesis using Cons by (cases as) (auto simp: sint_u8_eq[of _ 0, simplified])
  next
    case False
    then have "sint a \<noteq> 47" using sint_u8_eq[of a "0x2F"] by simp
    then show ?thesis using Cons False by simp
  qed
qed

lemma ext2_path_to_inode_loop:
  "ext2_path_to_inode fs path =
     (case path_loop fs (skip_leading_slash path) EXT2_ROOT_INO [] of None \<Rightarrow> 0 | Some n \<Rightarrow> n)"
proof (cases "strcmp_local path [0x2F] = 0")
  case True
  then have "path = [0x2F] \<or> (\<exists>r. path = 0x2F # 0 # r)" by (simp add: strcmp_slash)
  then show ?thesis using True by (auto simp: ext2_path_to_inode_def skip_leading_slash_def)
next
  case False
  then show ?thesis by (simp add: ext2_path_to_inode_def)
qed

lemma skip_loop_double:
  "path_loop fs (skip_leading_slash (p @ 0x2F # 0x2F # q)) EXT2_ROOT_INO []
     = path_loop fs (skip_leading_slash (p @ 0x2F # q)) EXT2_ROOT_INO []"
proof (cases p)
  case Nil
  then show ?thesis by (simp add: skip_leading_slash_def)
next
  case (Cons c cs)
  then show ?thesis
    using path_loop_double_slash[of fs cs q] path_loop_double_slash[of fs "c # cs" q]
    by (simp add: skip_leading_slash_def del: path_loop.simps)
qed

lemma skip_loop_trailing:
  "path_loop fs (skip_leading_slash (p @ [0x2F])) EXT2_ROOT_INO []
     = path_loop fs (skip_leading_slash p) EXT2_ROOT_INO []"
proof (cases p)
  case Nil
  then show ?thesis by (simp add: skip_leading_slash_def)
next
  case (Cons c cs)
  then show ?thesis
    using path_loop_trailing_slash[of fs cs] path_loop_trailing_slash[of fs "c # cs"]
    by (simp add: skip_leading_slash_def del: path_loop.simps)
qed

text \<open>
  The inode half of C5 holds of every filesystem: \<open>ext2_path_to_inode\<close> gives two
  equivalent paths the same inode number.
\<close>

lemma path_to_inode_slash_equiv:
  "slash_equiv p q \<Longrightarrow> ext2_path_to_inode fs p = ext2_path_to_inode fs q"
proof (induction rule: slash_equiv.induct)
  case (double p q)
  show ?case by (simp only: ext2_path_to_inode_loop skip_loop_double)
next
  case (trailing p)
  show ?case by (simp only: ext2_path_to_inode_loop skip_loop_trailing)
qed simp_all

lemma path_x_slash: "ext2_path_to_inode fs0 [0x2F, 0x78, 0x2F] = 12"
  using path_to_inode_slash_equiv[OF slash_equiv.trailing, of fs0 "[0x2F, 0x78]"] path_x by simp

text \<open>
  C5 (path resolution is insensitive to repeated and trailing slashes, and \<open>vfs_stat\<close>
  agrees on two such paths) does not hold of \<open>vfs_stat\<close>: "/x" and "/x/" resolve to the
  same inode 12, and \<open>vfs_stat\<close> reports the name "x" for the first and "x/" for the
  second, since the scan for the last component stops moving at a slash that ends the
  path and leaves that slash in the name.
\<close>

theorem stat_name_keeps_trailing_slash:
  "slash_equiv [0x2F, 0x78] [0x2F, 0x78, 0x2F]
   \<and> ext2_path_to_inode fs0 [0x2F, 0x78] = ext2_path_to_inode fs0 [0x2F, 0x78, 0x2F]
   \<and> vfs_stat (Some fs0) [0x2F, 0x78]
       = Some \<lparr> dirent_inode = 12, dirent_name = [0x78], dirent_type = VFS_TYPE_FILE,
                 dirent_size = 5 \<rparr>
   \<and> vfs_stat (Some fs0) [0x2F, 0x78, 0x2F]
       = Some \<lparr> dirent_inode = 12, dirent_name = [0x78, 0x2F], dirent_type = VFS_TYPE_FILE,
                 dirent_size = 5 \<rparr>"
  using slash_equiv.trailing[of "[0x2F, 0x78]"]
  by (simp add: vfs_stat_def path_x path_x_slash read_x vfs_get_type_from_mode_def file_inode0_def
                EXT2_S_IFDIR_def EXT2_S_IFLNK_def)

section \<open>Claims about directory entries\<close>

lemma strcmp_zero_pad [simp]: "0 < n \<Longrightarrow> strcmp_local (replicate n 0 @ rest) [] = 0"
  by (cases n) simp_all

lemma drop_dirent_name:
  "drop 8 (dirent i r t name) = name @ replicate (unat r - 8 - length name) 0"
  by (simp add: dirent_def)

lemma remove_a_scan:
  "remove_dir_entry_scan rootdir0 1024 1 [0x61] 0 None = Some (wr_bytes rootdir0 28 (enc16 24))"
  by (simp add: rootdir0_def de_skip length_dirent drop_dirent_name)


text \<open>
  The invariant of a directory block, as the specification words it: walking the block
  from \<open>off\<close> by \<open>rec_len\<close>, every entry has \<open>rec_len\<close> at least 8 plus its name length
  rounded up to a multiple of 4, and the walk ends exactly at the end of the block.
\<close>

definition round_up_4 :: "nat \<Rightarrow> nat" where
  "round_up_4 n = 4 * ((n + 3) div 4)"

function dir_block_ok :: "u8 list \<Rightarrow> nat \<Rightarrow> nat \<Rightarrow> bool" where
  "dir_block_ok block bsize off =
     (if off < bsize then
        (if unat (de_rec_len block off) < 8 + round_up_4 (unat (de_name_len block off)) then False
         else dir_block_ok block bsize (off + unat (de_rec_len block off)))
      else off = bsize)"
  by pat_completeness auto
termination
  by (relation "measure (\<lambda>(block, bsize, off). bsize - off)") auto

text \<open>
  The root directory block of the image after "a" is removed (the entry "x" before it
  absorbs its 12 bytes), and after the 9-byte name "longname1" is then added as inode 21.
\<close>

definition rootdir1 :: "u8 list" where
  "rootdir1 = wr_bytes rootdir0 28 (enc16 24)"

definition long_name :: "u8 list" where
  "long_name = [0x6C, 0x6F, 0x6E, 0x67, 0x6E, 0x61, 0x6D, 0x65, 0x31]"

definition rootdir2 :: "u8 list" where
  "rootdir2 = memcpy_local
                (wr_bytes (wr_bytes rootdir1 28 (enc16 12)) 36 (enc32 21 @ enc16 12 @ [9, 1]))
                44 long_name 9"

lemma de_wr_bytes:
  "de_rec_len (wr_bytes buf off bs) o' = le16 (wr_bytes buf off bs) (o' + 4)"
  "de_name_len (wr_bytes buf off bs) o' = rd8 (wr_bytes buf off bs) (o' + 6)"
  "de_inode (wr_bytes buf off bs) o' = le32 (wr_bytes buf off bs) o'"
  by (simp_all add: de_rec_len_def de_name_len_def de_inode_def)

lemma rootdir0_ok: "dir_block_ok rootdir0 1024 0"
  by (simp add: rootdir0_def de_skip length_dirent round_up_4_def unat_of_nat)

definition fs1 :: ext2_fs where
  "fs1 = mk_fs 13 13 12 12 (image0[9 := rootdir1])"

definition fs2 :: ext2_fs where
  "fs2 = mk_fs 13 13 12 12 (image0[9 := rootdir2])"

lemma length_rootdir12 [simp]: "length rootdir1 = 1024" "length rootdir2 = 1024"
  by (simp_all add: rootdir1_def rootdir2_def memcpy_local_def)

lemma remove_a:
  "ext2_remove_dir_entry fs0 root_inode 2 [0x61] = (0, fs1)"
  using remove_a_scan
  by (simp add: ext2_remove_dir_entry_def strlen_local_def root_inode_def fs0_def fs1_def
                kmalloc_ok_def ext2_read_data_block_def read_blocks_mk_fs write_blocks_mk_fs
                i_block_at_def rootdir1_def)

lemma rd8_wr_other:
  "i < off \<or> off + length bs \<le> i \<Longrightarrow> rd8 (wr_bytes buf off bs) i = rd8 buf i"
  by (auto simp: rd8_wr_bytes)

lemma rd8_wr_same:
  "off \<le> i \<Longrightarrow> i < off + length bs \<Longrightarrow> off + length bs \<le> length buf \<Longrightarrow>
   rd8 (wr_bytes buf off bs) i = rd8 bs (i - off)"
  unfolding rd8_wr_bytes by (auto simp: rd8_def)

lemma le16_wr_other:
  "i + 2 \<le> off \<or> off + length bs \<le> i \<Longrightarrow> le16 (wr_bytes buf off bs) i = le16 buf i"
  by (rule le16_cong) (auto simp: rd8_wr_bytes)

lemma le32_wr_other:
  "i + 4 \<le> off \<or> off + length bs \<le> i \<Longrightarrow> le32 (wr_bytes buf off bs) i = le32 buf i"
  by (rule le32_cong) (auto simp: rd8_wr_bytes)

lemma le16_wr_same:
  "off \<le> i \<Longrightarrow> i + 2 \<le> off + length bs \<Longrightarrow> off + length bs \<le> length buf \<Longrightarrow>
   le16 (wr_bytes buf off bs) i = le16 bs (i - off)"
  by (rule le16_cong) (simp add: rd8_wr_same)

lemma le32_wr_same:
  "off \<le> i \<Longrightarrow> i + 4 \<le> off + length bs \<Longrightarrow> off + length bs \<le> length buf \<Longrightarrow>
   le32 (wr_bytes buf off bs) i = le32 bs (i - off)"
  by (rule le32_cong) (simp add: rd8_wr_same)

lemmas le_dirent [simp] =
  de_dirent[unfolded de_inode_def de_rec_len_def de_name_len_def de_file_type_def, simplified]
  de_dirent_last[unfolded de_inode_def de_rec_len_def de_name_len_def de_file_type_def, simplified]

lemmas le_enc_last [simp] = le16_enc16[where ys="[]", simplified] le32_enc32[where ys="[]", simplified]

lemmas de_le = de_rec_len_def de_name_len_def de_inode_def

lemmas wr_reads = rd8_wr_other rd8_wr_same le16_wr_other le16_wr_same le32_wr_other le32_wr_same

lemma rootdir1_ok: "dir_block_ok rootdir1 1024 0"
  by (simp add: de_le rootdir1_def wr_reads rootdir0_def length_dirent round_up_4_def)

lemma rootdir2_36: "de_rec_len rootdir2 36 = 12" "de_name_len rootdir2 36 = 9"
  by (simp_all add: de_le rootdir2_def rootdir1_def memcpy_local_def long_name_def wr_reads)

lemma actual_len_vals: "actual_len 1 = 12" "actual_len 2 = 12" "actual_len 9 = 20"
  by (simp_all add: actual_len_def)

lemma add_scan:
  "add_dir_entry_scan rootdir1 1024 21 9 EXT2_FT_REG_FILE long_name 0 = Some rootdir2"
  by (simp add: de_le rootdir1_def wr_reads rootdir0_def length_dirent actual_len_vals
                rootdir2_def put_dir_entry_def EXT2_FT_REG_FILE_def word_less_nat_alt)

lemma strlen_long: "strlen_local long_name = 9"
  by (simp add: strlen_local_def long_name_def)

lemma add_long:
  "ext2_add_dir_entry fs1 root_inode 2 21 long_name EXT2_FT_REG_FILE = (0, fs2, root_inode)"
  by (simp add: ext2_add_dir_entry_def strlen_long add_scan Let_def
                root_inode_def fs1_def fs2_def blocks_ok_update
                kmalloc_ok_def ext2_read_data_block_def read_blocks_mk_fs write_blocks_mk_fs
                i_block_at_def word_le_nat_alt word_less_nat_alt
           del: add_dir_entry_scan.simps)

text \<open>
  C4 (every \<open>ext2_add_dir_entry\<close> and \<open>ext2_remove_dir_entry\<close> keeps each \<open>rec_len\<close> at
  least 8 plus the rounded name length, the entries tiling the block) does not hold of
  \<open>ext2_add_dir_entry\<close>. Removing "a" from the root directory of the image leaves a
  well-formed block in which "x" has 12 bytes of slack. Adding "longname1", which needs 20
  bytes, succeeds: the scan takes the first entry with any slack, without comparing the
  slack with the size of the new entry, and writes an entry whose \<open>rec_len\<close> is 12. The
  block no longer satisfies the invariant (and the name runs into the entry that follows).
\<close>

theorem add_dir_entry_breaks_rec_len:
  "ext2_remove_dir_entry fs0 root_inode 2 [0x61] = (0, fs1)
   \<and> dir_block_ok rootdir1 1024 0
   \<and> ext2_add_dir_entry fs1 root_inode 2 21 long_name EXT2_FT_REG_FILE = (0, fs2, root_inode)
   \<and> \<not> dir_block_ok rootdir2 1024 0
   \<and> unat (de_rec_len rootdir2 36) = 12
   \<and> 8 + round_up_4 (unat (de_name_len rootdir2 36)) = 20"
proof -
  have "\<not> dir_block_ok rootdir2 1024 36"
    by (simp add: rootdir2_36 round_up_4_def)
  moreover have "de_rec_len rootdir2 0 = 12" "de_name_len rootdir2 0 = 1"
    "de_rec_len rootdir2 12 = 12" "de_name_len rootdir2 12 = 2"
    "de_rec_len rootdir2 24 = 12" "de_name_len rootdir2 24 = 1"
    by (simp_all add: de_le rootdir2_def rootdir1_def memcpy_local_def long_name_def wr_reads
                      rootdir0_def length_dirent)
  ultimately have "\<not> dir_block_ok rootdir2 1024 0"
    by (simp add: round_up_4_def)
  then show ?thesis
    using remove_a rootdir1_ok add_long by (simp add: rootdir2_36 round_up_4_def)
qed

section \<open>Writing a file and reading it back\<close>

subsection \<open>Bitmaps\<close>

lemma bitmap_test_bit: "bitmap_test bm i = bit (rd8 bm (i div 8)) (i mod 8)"
  by (simp add: bitmap_test_def push_bit_of_1 and_exp_eq_0_iff_not_bit)

lemma length_bitmap_set [simp]: "length (bitmap_set bm i) = length bm"
  by (simp add: bitmap_set_def)

lemma length_bitmap_clear [simp]: "length (bitmap_clear bm i) = length bm"
  by (simp add: bitmap_clear_def)

lemma div_mod_eq_iff: "(i div 8 = j div 8 \<and> i mod 8 = j mod 8) \<longleftrightarrow> i = (j::nat)"
  by (metis div_mult_mod_eq)

lemma bitmap_test_set:
  assumes "i div 8 < length bm"
  shows "bitmap_test (bitmap_set bm i) j \<longleftrightarrow> j = i \<or> bitmap_test bm j"
proof (cases "j div 8 = i div 8")
  case True
  have "rd8 (bitmap_set bm i) (j div 8) = rd8 bm (i div 8) OR push_bit (i mod 8) 1"
    using assms True by (simp add: bitmap_set_def rd8_wr_bytes)
  then show ?thesis
    using True div_mod_eq_iff[of j i]
    by (auto simp: bitmap_test_bit bit_simps)
next
  case False
  then have "rd8 (bitmap_set bm i) (j div 8) = rd8 bm (j div 8)"
    by (auto simp: bitmap_set_def rd8_wr_bytes)
  then show ?thesis using False by (auto simp: bitmap_test_bit)
qed

lemma bitmap_test_clear:
  assumes "i div 8 < length bm"
  shows "bitmap_test (bitmap_clear bm i) j \<longleftrightarrow> j \<noteq> i \<and> bitmap_test bm j"
proof (cases "j div 8 = i div 8")
  case True
  have "rd8 (bitmap_clear bm i) (j div 8) = rd8 bm (i div 8) AND NOT (push_bit (i mod 8) 1)"
    using assms True by (simp add: bitmap_clear_def rd8_wr_bytes)
  then show ?thesis
    using True div_mod_eq_iff[of j i]
    by (auto simp: bitmap_test_bit bit_simps)
next
  case False
  then have "rd8 (bitmap_clear bm i) (j div 8) = rd8 bm (j div 8)"
    by (auto simp: bitmap_clear_def rd8_wr_bytes)
  then show ?thesis using False by (auto simp: bitmap_test_bit)
qed


text \<open>
  \<open>blk_valid\<close>: a block number other than 0 whose sectors lie on the device.
  \<open>free_bit fs g i\<close>: bit \<open>i\<close> of the block bitmap of group \<open>g\<close> can be read and is clear;
  \<open>bit_block\<close> is the block number \<open>ext2_alloc_block\<close> returns for it and \<open>alloc_upd\<close> the
  filesystem it leaves.
\<close>

definition blk_valid :: "ext2_fs \<Rightarrow> u32 \<Rightarrow> bool" where
  "blk_valid fs b = (b \<noteq> 0 \<and> (unat b + 1) * unat (block_size fs div 512)
                                \<le> unat (block_count (device fs)))"

definition block_bitmap_of :: "ext2_fs \<Rightarrow> nat \<Rightarrow> u32" where
  "block_bitmap_of fs g = bg_block_bitmap (block_groups fs ! g)"

definition free_bit :: "ext2_fs \<Rightarrow> nat \<Rightarrow> nat \<Rightarrow> bool" where
  "free_bit fs g i = (g < unat (num_block_groups fs) \<and> i < unat (blocks_per_group fs)
                      \<and> blk_in_range fs (block_bitmap_of fs g)
                      \<and> \<not> bitmap_test (blk_at fs (block_bitmap_of fs g)) i)"

definition bit_block :: "ext2_fs \<Rightarrow> nat \<Rightarrow> nat \<Rightarrow> u32" where
  "bit_block fs g i = of_nat g * blocks_per_group fs + of_nat i + s_first_data_block (superblock fs)"

definition alloc_upd :: "ext2_fs \<Rightarrow> nat \<Rightarrow> nat \<Rightarrow> ext2_fs" where
  "alloc_upd fs g i =
     dec_free_blocks (put_blk fs (block_bitmap_of fs g)
                        (bitmap_set (blk_at fs (block_bitmap_of fs g)) i)) g"

lemma blk_valid_dev:
  assumes "fs_ok fs" and "blk_valid fs b"
  shows "unat (dev_block fs b) = unat b * unat (block_size fs div 512)"
proof -
  have "ramdisk_ok (device fs)" using assms(1) by (simp add: fs_ok_def)
  then have "unat (block_count (device fs)) < 2 ^ 23" by (rule ramdisk_ok_bound)
  then have "unat b * unat (block_size fs div 512) < 2 ^ 32"
    using assms(2) by (simp add: blk_valid_def)
  then show ?thesis by (simp add: dev_block_def unat_word_ariths)
qed

lemma blk_valid_in_range: "fs_ok fs \<Longrightarrow> blk_valid fs b \<Longrightarrow> blk_in_range fs b"
  using blk_valid_dev[of fs b] by (simp add: blk_in_range_def blk_valid_def)

lemma blk_valid_inj:
  assumes "fs_ok fs" and "blk_valid fs b" and "blk_valid fs b'"
    and "dev_block fs b = dev_block fs b'"
  shows "b = b'"
proof -
  have "0 < unat (block_size fs div 512)" using fs_ok_bpf[OF assms(1)] by simp
  moreover have "unat b * unat (block_size fs div 512) = unat b' * unat (block_size fs div 512)"
    using blk_valid_dev[OF assms(1,2)] blk_valid_dev[OF assms(1,3)] assms(4) by metis
  ultimately have "unat b = unat b'" by auto
  then show ?thesis by (simp add: word_unat_eq_iff)
qed

lemma alloc_scan_cases:
  assumes "fs_ok fs" and "blk_in_range fs (block_bitmap_of fs g)"
  shows "(alloc_block_scan fs g bm i0 = None
            \<and> (\<forall>i. i0 \<le> i \<and> i < unat (blocks_per_group fs) \<longrightarrow> bitmap_test bm i))
         \<or> (\<exists>i. i0 \<le> i \<and> i < unat (blocks_per_group fs) \<and> \<not> bitmap_test bm i
               \<and> alloc_block_scan fs g bm i0
                    = Some (bit_block fs g i,
                            dec_free_blocks (put_blk fs (block_bitmap_of fs g) (bitmap_set bm i)) g))"
  using assms
proof (induction fs g bm i0 rule: alloc_block_scan.induct)
  case (1 fs g bm i)
  show ?case
  proof (cases "i < unat (blocks_per_group fs)")
    case False
    then show ?thesis by (subst alloc_block_scan.simps) auto
  next
    case inb: True
    show ?thesis
    proof (cases "bitmap_test bm i")
      case True
      have eq: "alloc_block_scan fs g bm i = alloc_block_scan fs g bm (i + 1)"
        using inb True by (subst alloc_block_scan.simps) simp
      have ih: "(alloc_block_scan fs g bm (i + 1) = None
            \<and> (\<forall>j. i + 1 \<le> j \<and> j < unat (blocks_per_group fs) \<longrightarrow> bitmap_test bm j))
         \<or> (\<exists>j. i + 1 \<le> j \<and> j < unat (blocks_per_group fs) \<and> \<not> bitmap_test bm j
               \<and> alloc_block_scan fs g bm (i + 1)
                    = Some (bit_block fs g j,
                            dec_free_blocks (put_blk fs (block_bitmap_of fs g) (bitmap_set bm j)) g))"
        using "1.IH"(2)[OF inb] True "1.prems" by simp
      then show ?thesis
      proof
        assume a: "alloc_block_scan fs g bm (i + 1) = None
            \<and> (\<forall>j. i + 1 \<le> j \<and> j < unat (blocks_per_group fs) \<longrightarrow> bitmap_test bm j)"
        have "\<forall>j. i \<le> j \<and> j < unat (blocks_per_group fs) \<longrightarrow> bitmap_test bm j"
        proof (intro allI impI)
          fix j assume "i \<le> j \<and> j < unat (blocks_per_group fs)"
          then show "bitmap_test bm j" using a True by (cases "j = i") auto
        qed
        then show ?thesis using a eq by simp
      next
        assume "\<exists>j. i + 1 \<le> j \<and> j < unat (blocks_per_group fs) \<and> \<not> bitmap_test bm j
               \<and> alloc_block_scan fs g bm (i + 1)
                    = Some (bit_block fs g j,
                            dec_free_blocks (put_blk fs (block_bitmap_of fs g) (bitmap_set bm j)) g)"
        then obtain j where "i + 1 \<le> j" "j < unat (blocks_per_group fs)" "\<not> bitmap_test bm j"
          "alloc_block_scan fs g bm (i + 1)
                    = Some (bit_block fs g j,
                            dec_free_blocks (put_blk fs (block_bitmap_of fs g) (bitmap_set bm j)) g)"
          by blast
        then show ?thesis using eq by (intro disjI2 exI[of _ j]) simp
      qed
    next
      case False
      have "alloc_block_scan fs g bm i
              = Some (bit_block fs g i,
                      dec_free_blocks (put_blk fs (block_bitmap_of fs g) (bitmap_set bm i)) g)"
        using inb False "1.prems"
        by (subst alloc_block_scan.simps)
           (simp add: ext2_write_blocks_eq block_bitmap_of_def bit_block_def)
      then show ?thesis using inb False by (intro disjI2 exI[of _ i]) simp
    qed
  qed
qed


lemma alloc_groups_cases:
  assumes "fs_ok fs"
  shows "(alloc_block_groups fs g0 = (0, fs) \<and> (\<forall>g i. g0 \<le> g \<longrightarrow> \<not> free_bit fs g i))
         \<or> (\<exists>g i. g0 \<le> g \<and> free_bit fs g i
                \<and> alloc_block_groups fs g0 = (bit_block fs g i, alloc_upd fs g i))"
  using assms
proof (induction fs g0 rule: alloc_block_groups.induct)
  case (1 fs g)
  let ?P = "\<lambda>g0. (alloc_block_groups fs g0 = (0, fs) \<and> (\<forall>g i. g0 \<le> g \<longrightarrow> \<not> free_bit fs g i))
         \<or> (\<exists>g i. g0 \<le> g \<and> free_bit fs g i
                \<and> alloc_block_groups fs g0 = (bit_block fs g i, alloc_upd fs g i))"
  have km: "kmalloc_ok (block_size fs)" using "1.prems" by simp
  show ?case
  proof (cases "g < unat (num_block_groups fs)")
    case False
    then have "alloc_block_groups fs g = (0, fs)" by (subst alloc_block_groups.simps) simp
    moreover have "\<forall>g' i. g \<le> g' \<longrightarrow> \<not> free_bit fs g' i"
      using False by (auto simp: free_bit_def)
    ultimately show ?thesis by simp
  next
    case ing: True
    have step: "?P (g + 1) \<Longrightarrow> alloc_block_groups fs g = alloc_block_groups fs (g + 1)
                  \<Longrightarrow> (\<forall>i. \<not> free_bit fs g i) \<Longrightarrow> ?P g"
    proof -
      assume p: "?P (g + 1)" and e: "alloc_block_groups fs g = alloc_block_groups fs (g + 1)"
        and nf: "\<forall>i. \<not> free_bit fs g i"
      from p show "?P g"
      proof
        assume a: "alloc_block_groups fs (g + 1) = (0, fs)
                   \<and> (\<forall>g' i. g + 1 \<le> g' \<longrightarrow> \<not> free_bit fs g' i)"
        have "\<forall>g' i. g \<le> g' \<longrightarrow> \<not> free_bit fs g' i"
        proof (intro allI impI)
          fix g' i assume "g \<le> g'"
          then show "\<not> free_bit fs g' i" using a nf by (cases "g' = g") auto
        qed
        then show ?thesis using a e by simp
      next
        assume "\<exists>g' i. g + 1 \<le> g' \<and> free_bit fs g' i
                \<and> alloc_block_groups fs (g + 1) = (bit_block fs g' i, alloc_upd fs g' i)"
        then obtain g' i where "g + 1 \<le> g'" "free_bit fs g' i"
          "alloc_block_groups fs (g + 1) = (bit_block fs g' i, alloc_upd fs g' i)" by blast
        then show ?thesis using e by (intro disjI2 exI[of _ g'] exI[of _ i]) simp
      qed
    qed
    show ?thesis
    proof (cases "blk_in_range fs (block_bitmap_of fs g)")
      case False
      then have rd: "ext2_read_blocks fs (bg_block_bitmap (block_groups fs ! g)) 1 = None"
        using "1.prems" by (simp add: ext2_read_blocks_eq block_bitmap_of_def)
      have e: "alloc_block_groups fs g = alloc_block_groups fs (g + 1)"
        using ing km rd by (subst alloc_block_groups.simps) simp
      have "?P (g + 1)" using "1.IH"(2)[OF ing _ rd] km "1.prems" by simp
      then show ?thesis using e False by (intro step) (auto simp: free_bit_def)
    next
      case inr: True
      let ?bm = "blk_at fs (block_bitmap_of fs g)"
      have rd: "ext2_read_blocks fs (bg_block_bitmap (block_groups fs ! g)) 1 = Some ?bm"
        using "1.prems" inr by (simp add: ext2_read_blocks_eq block_bitmap_of_def)
      from alloc_scan_cases[OF "1.prems" inr, of ?bm 0] show ?thesis
      proof
        assume a: "alloc_block_scan fs g ?bm 0 = None
            \<and> (\<forall>i. 0 \<le> i \<and> i < unat (blocks_per_group fs) \<longrightarrow> bitmap_test ?bm i)"
        have e: "alloc_block_groups fs g = alloc_block_groups fs (g + 1)"
          using ing km rd a by (subst alloc_block_groups.simps) simp
        have "?P (g + 1)" using "1.IH"(3)[OF ing _ rd] km a "1.prems" by simp
        then show ?thesis using e a by (intro step) (auto simp: free_bit_def)
      next
        assume "\<exists>i. 0 \<le> i \<and> i < unat (blocks_per_group fs) \<and> \<not> bitmap_test ?bm i
               \<and> alloc_block_scan fs g ?bm 0
                    = Some (bit_block fs g i,
                            dec_free_blocks (put_blk fs (block_bitmap_of fs g) (bitmap_set ?bm i)) g)"
        then obtain i where i: "i < unat (blocks_per_group fs)" "\<not> bitmap_test ?bm i"
          "alloc_block_scan fs g ?bm 0
                    = Some (bit_block fs g i,
                            dec_free_blocks (put_blk fs (block_bitmap_of fs g) (bitmap_set ?bm i)) g)"
          by blast
        have "alloc_block_groups fs g = (bit_block fs g i, alloc_upd fs g i)"
          using ing km rd i(3) by (subst alloc_block_groups.simps) (simp add: alloc_upd_def)
        moreover have "free_bit fs g i" using ing inr i by (simp add: free_bit_def)
        ultimately show ?thesis by (intro disjI2 exI[of _ g] exI[of _ i]) simp
      qed
    qed
  qed
qed

lemma ext2_alloc_block_cases:
  assumes "fs_ok fs"
  shows "(ext2_alloc_block fs = (0, fs) \<and> (\<forall>g i. \<not> free_bit fs g i))
         \<or> (\<exists>g i. free_bit fs g i \<and> ext2_alloc_block fs = (bit_block fs g i, alloc_upd fs g i))"
  using alloc_groups_cases[OF assms, of 0] by (simp add: ext2_alloc_block_def)


subsection \<open>Filesystems of the same geometry\<close>

text \<open>
  The operations change the bytes of the device and the free counters; the geometry (block
  size, group sizes, device size, where the bitmaps and inode tables lie) stays.
\<close>

definition geom_eq :: "ext2_fs \<Rightarrow> ext2_fs \<Rightarrow> bool" where
  "geom_eq fs fs' =
     (block_size fs' = block_size fs \<and> blocks_per_group fs' = blocks_per_group fs
      \<and> inodes_per_group fs' = inodes_per_group fs \<and> num_block_groups fs' = num_block_groups fs
      \<and> block_count (device fs') = block_count (device fs)
      \<and> rd_size (device fs') = rd_size (device fs)
      \<and> length (data (device fs')) = length (data (device fs))
      \<and> s_first_data_block (superblock fs') = s_first_data_block (superblock fs)
      \<and> length (block_groups fs') = length (block_groups fs)
      \<and> (\<forall>g < length (block_groups fs).
            bg_block_bitmap (block_groups fs' ! g) = bg_block_bitmap (block_groups fs ! g)
          \<and> bg_inode_bitmap (block_groups fs' ! g) = bg_inode_bitmap (block_groups fs ! g)
          \<and> bg_inode_table (block_groups fs' ! g) = bg_inode_table (block_groups fs ! g)))"

lemma geom_eq_refl [simp]: "geom_eq fs fs"
  by (simp add: geom_eq_def)

lemma geom_eq_trans: "geom_eq a b \<Longrightarrow> geom_eq b c \<Longrightarrow> geom_eq a c"
  by (simp add: geom_eq_def)

lemma geom_eq_sym: "geom_eq a b \<Longrightarrow> geom_eq b a"
  by (simp add: geom_eq_def)

lemma geom_eq_put_blk [simp]: "geom_eq fs (put_blk fs k buf)"
  by (simp add: geom_eq_def put_blk_def)

lemma nth_upd_field:
  "(\<And>x. f (h x) = f x) \<Longrightarrow> f (xs[g := h (xs ! g)] ! i) = f (xs ! i)"
  by (cases "g < length xs") (auto simp: nth_list_update list_update_beyond not_less)

lemma geom_eq_counters [simp]:
  "geom_eq fs (dec_free_blocks fs g)" "geom_eq fs (inc_free_blocks fs g)"
  "geom_eq fs (dec_free_inodes fs g)" "geom_eq fs (inc_free_inodes fs g)"
  by (simp_all add: geom_eq_def dec_free_blocks_def inc_free_blocks_def dec_free_inodes_def
                    inc_free_inodes_def nth_upd_field)

lemma counters_device [simp]:
  "device (dec_free_blocks fs g) = device fs" "device (inc_free_blocks fs g) = device fs"
  "device (dec_free_inodes fs g) = device fs" "device (inc_free_inodes fs g) = device fs"
  by (simp_all add: dec_free_blocks_def inc_free_blocks_def dec_free_inodes_def
                    inc_free_inodes_def)

lemma geom_fs_ok: "geom_eq fs fs' \<Longrightarrow> fs_ok fs \<Longrightarrow> fs_ok fs'"
  by (simp add: geom_eq_def fs_ok_def ramdisk_ok_def)

lemma geom_dev_block: "geom_eq fs fs' \<Longrightarrow> dev_block fs' k = dev_block fs k"
  by (simp add: geom_eq_def dev_block_def)

lemma geom_blk_in_range: "geom_eq fs fs' \<Longrightarrow> blk_in_range fs' k = blk_in_range fs k"
  by (simp add: geom_eq_def blk_in_range_def dev_block_def)

lemma geom_blk_valid: "geom_eq fs fs' \<Longrightarrow> blk_valid fs' k = blk_valid fs k"
  by (simp add: geom_eq_def blk_valid_def)

lemma geom_bitmap_of:
  "geom_eq fs fs' \<Longrightarrow> g < length (block_groups fs) \<Longrightarrow> block_bitmap_of fs' g = block_bitmap_of fs g"
  by (simp add: geom_eq_def block_bitmap_of_def)

lemma geom_bit_block: "geom_eq fs fs' \<Longrightarrow> bit_block fs' g i = bit_block fs g i"
  by (simp add: geom_eq_def bit_block_def)

lemma geom_inode_block:
  "geom_eq fs fs' \<Longrightarrow> fs_ok fs \<Longrightarrow> (n - 1) div inodes_per_group fs < num_block_groups fs
   \<Longrightarrow> inode_block fs' n = inode_block fs n"
  by (simp add: geom_eq_def inode_block_def fs_ok_def word_less_nat_alt)

lemma geom_inode_slot: "geom_eq fs fs' \<Longrightarrow> inode_slot fs' n = inode_slot fs n"
  by (simp add: geom_eq_def inode_slot_def)

lemma geom_inode_valid:
  "geom_eq fs fs' \<Longrightarrow> fs_ok fs \<Longrightarrow> inode_valid fs' n = inode_valid fs n"
  using geom_inode_block[of fs fs' n] geom_blk_in_range[of fs fs']
  by (auto simp: inode_valid_def geom_eq_def)

lemma blk_at_counters [simp]:
  "blk_at (dec_free_blocks fs g) k = blk_at fs k" "blk_at (inc_free_blocks fs g) k = blk_at fs k"
  "blk_at (dec_free_inodes fs g) k = blk_at fs k" "blk_at (inc_free_inodes fs g) k = blk_at fs k"
  using geom_eq_counters[of fs g]
  by (simp_all add: blk_at_def geom_eq_def dev_block_def)


subsection \<open>A bitmap that is sound for a file\<close>

text \<open>
  \<open>data_block_ok fs t b\<close>: block \<open>b\<close> lies on the device and is neither block \<open>t\<close> (the
  inode-table block of the file) nor a block bitmap. \<open>alloc_sound fs t bl\<close>: a bitmap fits its
  block, the bitmaps of different groups are different blocks, the free bits denote
  different blocks, each a data block that is not among the twelve direct blocks \<open>bl\<close>, and
  the direct blocks in use are data blocks, no two the same.
\<close>

definition data_block_ok :: "ext2_fs \<Rightarrow> u32 \<Rightarrow> u32 \<Rightarrow> bool" where
  "data_block_ok fs t b =
     (blk_valid fs b \<and> dev_block fs b \<noteq> dev_block fs t
      \<and> (\<forall>g < unat (num_block_groups fs). dev_block fs b \<noteq> dev_block fs (block_bitmap_of fs g)))"

definition free_bits :: "ext2_fs \<Rightarrow> (nat \<times> nat) set" where
  "free_bits fs = {(g, i). free_bit fs g i}"

definition alloc_sound :: "ext2_fs \<Rightarrow> u32 \<Rightarrow> u32 list \<Rightarrow> bool" where
  "alloc_sound fs t bl =
     (unat (blocks_per_group fs) \<le> 8 * unat (block_size fs)
      \<and> (\<forall>g < unat (num_block_groups fs). \<forall>g' < unat (num_block_groups fs).
            g \<noteq> g' \<longrightarrow> dev_block fs (block_bitmap_of fs g) \<noteq> dev_block fs (block_bitmap_of fs g'))
      \<and> inj_on (\<lambda>(g, i). bit_block fs g i) (free_bits fs)
      \<and> (\<forall>(g, i) \<in> free_bits fs.
            data_block_ok fs t (bit_block fs g i) \<and> (\<forall>j < 12. bl ! j \<noteq> bit_block fs g i))
      \<and> (\<forall>j < 12. bl ! j \<noteq> 0 \<longrightarrow> data_block_ok fs t (bl ! j))
      \<and> (\<forall>j < 12. \<forall>j' < 12. j \<noteq> j' \<and> bl ! j \<noteq> 0 \<longrightarrow> bl ! j \<noteq> bl ! j'))"

lemma finite_free_bits [simp]: "finite (free_bits fs)"
proof -
  have "free_bits fs \<subseteq> {..< unat (num_block_groups fs)} \<times> {..< unat (blocks_per_group fs)}"
    by (auto simp: free_bits_def free_bit_def)
  then show ?thesis by (rule finite_subset) simp
qed

lemma geom_data_block_ok:
  assumes "geom_eq fs fs'" and "fs_ok fs"
  shows "data_block_ok fs' t b = data_block_ok fs t b"
proof -
  have n: "num_block_groups fs' = num_block_groups fs" using assms(1) by (simp add: geom_eq_def)
  have l: "length (block_groups fs) = unat (num_block_groups fs)"
    using assms(2) by (simp add: fs_ok_def)
  show ?thesis
    by (simp add: data_block_ok_def geom_blk_valid[OF assms(1)] geom_dev_block[OF assms(1)] n
                  geom_bitmap_of[OF assms(1)] l cong: conj_cong)
qed

lemma free_bit_alloc_upd:
  assumes ok: "fs_ok fs" and f: "free_bit fs g i"
    and sz: "unat (blocks_per_group fs) \<le> 8 * unat (block_size fs)"
    and na: "\<forall>g < unat (num_block_groups fs). \<forall>g' < unat (num_block_groups fs).
            g \<noteq> g' \<longrightarrow> dev_block fs (block_bitmap_of fs g) \<noteq> dev_block fs (block_bitmap_of fs g')"
  shows "free_bit (alloc_upd fs g i) g' i' \<longleftrightarrow> free_bit fs g' i' \<and> (g', i') \<noteq> (g, i)"
proof -
  let ?bb = "block_bitmap_of fs g" and ?bm = "blk_at fs (block_bitmap_of fs g)"
  let ?fs1 = "put_blk fs ?bb (bitmap_set ?bm i)"
  have ge: "geom_eq fs (alloc_upd fs g i)"
    unfolding alloc_upd_def by (rule geom_eq_trans[OF geom_eq_put_blk geom_eq_counters(1)])
  have l: "length (block_groups fs) = unat (num_block_groups fs)"
    using ok by (simp add: fs_ok_def)
  have g: "g < unat (num_block_groups fs)" and i: "i < unat (blocks_per_group fs)"
    and inr: "blk_in_range fs ?bb" and nt: "\<not> bitmap_test ?bm i"
    using f by (simp_all add: free_bit_def)
  have len: "length ?bm = unat (block_size fs)" using ok inr by (rule length_blk_at)
  have i8: "i div 8 < length ?bm" using i sz len by auto
  have at: "blk_at (alloc_upd fs g i) x = blk_at ?fs1 x" for x
    by (simp add: alloc_upd_def)
  show ?thesis
  proof (cases "g' < unat (num_block_groups fs)")
    case False
    then show ?thesis using ge by (simp add: free_bit_def geom_eq_def)
  next
    case g': True
    have bb: "block_bitmap_of (alloc_upd fs g i) g' = block_bitmap_of fs g'"
      using geom_bitmap_of[OF ge] g' l by simp
    have fb: "free_bit (alloc_upd fs g i) g' i' \<longleftrightarrow>
              i' < unat (blocks_per_group fs) \<and> blk_in_range fs (block_bitmap_of fs g')
              \<and> \<not> bitmap_test (blk_at ?fs1 (block_bitmap_of fs g')) i'"
      using ge g' by (simp add: free_bit_def bb geom_blk_in_range[OF ge] at) (simp add: geom_eq_def)
    show ?thesis
    proof (cases "g' = g")
      case True
      have "blk_at ?fs1 ?bb = bitmap_set ?bm i"
        using ok inr len by (intro blk_at_put_blk_same) simp_all
      then show ?thesis
        using True fb bitmap_test_set[OF i8, of i'] g nt by (auto simp: free_bit_def)
    next
      case False
      then have "dev_block fs (block_bitmap_of fs g') \<noteq> dev_block fs ?bb"
        using na g g' by blast
      then have "blk_at ?fs1 (block_bitmap_of fs g') = blk_at fs (block_bitmap_of fs g')"
        using ok by (intro blk_at_put_blk_other)
      then show ?thesis using False fb g' by (auto simp: free_bit_def)
    qed
  qed
qed

lemma free_bit_put_blk:
  assumes ok: "fs_ok fs"
    and nb: "\<forall>g < unat (num_block_groups fs). dev_block fs b \<noteq> dev_block fs (block_bitmap_of fs g)"
  shows "free_bit (put_blk fs b buf) g i = free_bit fs g i"
proof (cases "g < unat (num_block_groups fs)")
  case False
  then show ?thesis by (simp add: free_bit_def)
next
  case True
  then have "dev_block fs (block_bitmap_of fs g) \<noteq> dev_block fs b" using nb by metis
  then have "blk_at (put_blk fs b buf) (block_bitmap_of fs g) = blk_at fs (block_bitmap_of fs g)"
    using ok by (intro blk_at_put_blk_other)
  then show ?thesis by (simp add: free_bit_def block_bitmap_of_def)
qed

lemma free_bits_alloc_upd:
  assumes "fs_ok fs" and "free_bit fs g i" and "alloc_sound fs t bl"
  shows "free_bits (alloc_upd fs g i) = free_bits fs - {(g, i)}"
  using free_bit_alloc_upd[OF assms(1,2)] assms(3)
  by (auto simp: free_bits_def alloc_sound_def)

lemma free_bits_put_blk:
  assumes "fs_ok fs" and "data_block_ok fs t b"
  shows "free_bits (put_blk fs b buf) = free_bits fs"
  using free_bit_put_blk[OF assms(1), of b] assms(2)
  by (auto simp: free_bits_def data_block_ok_def)

lemma geom_alloc_upd [simp]: "geom_eq fs (alloc_upd fs g i)"
  unfolding alloc_upd_def by (rule geom_eq_trans[OF geom_eq_put_blk geom_eq_counters(1)])

lemma alloc_sound_geom:
  assumes ge: "geom_eq fs fs'" and ok: "fs_ok fs" and s: "alloc_sound fs t bl"
    and sub: "free_bits fs' \<subseteq> free_bits fs"
  shows "alloc_sound fs' t bl"
proof -
  have l: "length (block_groups fs) = unat (num_block_groups fs)"
    using ok by (simp add: fs_ok_def)
  have f: "block_size fs' = block_size fs" "blocks_per_group fs' = blocks_per_group fs"
    "num_block_groups fs' = num_block_groups fs"
    using ge by (simp_all add: geom_eq_def)
  have inj: "inj_on (\<lambda>(g, i). bit_block fs g i) (free_bits fs')"
    using s sub by (auto simp: alloc_sound_def intro: inj_on_subset)
  have fr: "data_block_ok fs t (bit_block fs g i) \<and> (\<forall>j<12. bl ! j \<noteq> bit_block fs g i)"
    if "(g, i) \<in> free_bits fs'" for g i
  proof -
    have "(g, i) \<in> free_bits fs" using that sub by blast
    then show ?thesis using s unfolding alloc_sound_def by blast
  qed
  have na: "\<forall>g<unat (num_block_groups fs). \<forall>g'<unat (num_block_groups fs). g \<noteq> g' \<longrightarrow>
            dev_block fs (block_bitmap_of fs' g) \<noteq> dev_block fs (block_bitmap_of fs' g')"
    using s by (simp add: alloc_sound_def geom_bitmap_of[OF ge] l)
  show ?thesis
    unfolding alloc_sound_def f geom_data_block_ok[OF ge ok] geom_dev_block[OF ge]
              geom_bit_block[OF ge]
  proof (intro conjI)
    show "unat (blocks_per_group fs) \<le> 8 * unat (block_size fs)"
      using s by (simp add: alloc_sound_def)
    show "\<forall>g<unat (num_block_groups fs). \<forall>g'<unat (num_block_groups fs). g \<noteq> g' \<longrightarrow>
            dev_block fs (block_bitmap_of fs' g) \<noteq> dev_block fs (block_bitmap_of fs' g')"
      by (rule na)
    show "inj_on (\<lambda>(g, i). bit_block fs g i) (free_bits fs')" by (rule inj)
    show "\<forall>(g, i)\<in>free_bits fs'. data_block_ok fs t (bit_block fs g i)
             \<and> (\<forall>j<12. bl ! j \<noteq> bit_block fs g i)"
      using fr by blast
    show "\<forall>j<12. bl ! j \<noteq> 0 \<longrightarrow> data_block_ok fs t (bl ! j)"
      using s unfolding alloc_sound_def by blast
    show "\<forall>j<12. \<forall>j'<12. j \<noteq> j' \<and> bl ! j \<noteq> 0 \<longrightarrow> bl ! j \<noteq> bl ! j'"
      using s unfolding alloc_sound_def by blast
  qed
qed

lemma alloc_sound_put_blk:
  assumes "fs_ok fs" and "alloc_sound fs t bl" and "data_block_ok fs t b"
  shows "alloc_sound (put_blk fs b buf) t bl"
proof -
  have "free_bits (put_blk fs b buf) \<subseteq> free_bits fs"
    using free_bits_put_blk[OF assms(1,3), of buf] by (rule equalityD1)
  then show ?thesis
    by (rule alloc_sound_geom[OF geom_eq_put_blk assms(1,2)])
qed

lemma alloc_sound_alloc_upd:
  assumes ok: "fs_ok fs" and s: "alloc_sound fs t bl" and f: "free_bit fs g i"
    and k: "k < 12" "k < length bl"
  shows "alloc_sound (alloc_upd fs g i) t (bl[k := bit_block fs g i])"
proof -
  let ?fs' = "alloc_upd fs g i" and ?nb = "bit_block fs g i"
  have fb: "free_bits ?fs' = free_bits fs - {(g, i)}" using ok f s by (rule free_bits_alloc_upd)
  have sub: "free_bits ?fs' \<subseteq> free_bits fs" using fb by blast
  have s1: "alloc_sound ?fs' t bl"
    by (rule alloc_sound_geom[OF geom_alloc_upd ok s sub])
  have gi: "(g, i) \<in> free_bits fs" using f by (simp add: free_bits_def)
  have nbok: "data_block_ok fs t ?nb" and nbnew: "\<forall>j<12. bl ! j \<noteq> ?nb"
    using s gi unfolding alloc_sound_def by blast+
  have inj: "inj_on (\<lambda>(g, i). bit_block fs g i) (free_bits fs)"
    using s by (simp add: alloc_sound_def)
  have other: "bit_block fs g' i' \<noteq> ?nb" if "(g', i') \<in> free_bits ?fs'" for g' i'
  proof
    assume e: "bit_block fs g' i' = ?nb"
    have m: "(g', i') \<in> free_bits fs" "(g', i') \<noteq> (g, i)" using that fb by auto
    have "(g', i') = (g, i)" using inj_onD[OF inj _ m(1) gi] e by simp
    then show False using m(2) by simp
  qed
  have ge: "geom_eq fs ?fs'" by simp
  have nbok': "data_block_ok ?fs' t ?nb" using nbok by (simp add: geom_data_block_ok[OF ge ok])
  have bb': "bit_block ?fs' g' i' = bit_block fs g' i'" for g' i'
    by (rule geom_bit_block[OF ge])
  have old: "\<forall>(g', i')\<in>free_bits ?fs'. data_block_ok ?fs' t (bit_block fs g' i')
            \<and> (\<forall>j<12. bl ! j \<noteq> bit_block fs g' i')"
    using s1 unfolding alloc_sound_def bb' by blast
  have oldb: "\<forall>j<12. bl ! j \<noteq> 0 \<longrightarrow> data_block_ok ?fs' t (bl ! j)"
    using s1 unfolding alloc_sound_def by blast
  have oldd: "\<forall>j<12. \<forall>j'<12. j \<noteq> j' \<and> bl ! j \<noteq> 0 \<longrightarrow> bl ! j \<noteq> bl ! j'"
    using s1 unfolding alloc_sound_def by blast
  have nth: "bl[k := ?nb] ! j = (if j = k then ?nb else bl ! j)" for j
    using k(2) by (simp add: nth_list_update)
  show ?thesis
    unfolding alloc_sound_def
  proof (intro conjI)
    show "unat (blocks_per_group ?fs') \<le> 8 * unat (block_size ?fs')"
      using s1 by (simp add: alloc_sound_def)
    show "\<forall>g<unat (num_block_groups ?fs'). \<forall>g'<unat (num_block_groups ?fs'). g \<noteq> g' \<longrightarrow>
            dev_block ?fs' (block_bitmap_of ?fs' g) \<noteq> dev_block ?fs' (block_bitmap_of ?fs' g')"
      using s1 unfolding alloc_sound_def by blast
    show "inj_on (\<lambda>(g, i). bit_block ?fs' g i) (free_bits ?fs')"
      using s1 unfolding alloc_sound_def by blast
    show "\<forall>(g', i')\<in>free_bits ?fs'. data_block_ok ?fs' t (bit_block ?fs' g' i')
            \<and> (\<forall>j<12. bl[k := ?nb] ! j \<noteq> bit_block ?fs' g' i')"
      unfolding bb' nth
    proof (intro ballI, clarify)
      fix g' i'
      assume m: "(g', i') \<in> free_bits ?fs'"
      have a: "data_block_ok ?fs' t (bit_block fs g' i')" "\<forall>j<12. bl ! j \<noteq> bit_block fs g' i'"
        using old m by blast+
      have b: "bit_block fs g' i' \<noteq> ?nb" using other[OF m] .
      show "data_block_ok ?fs' t (bit_block fs g' i')
            \<and> (\<forall>j<12. (if j = k then ?nb else bl ! j) \<noteq> bit_block fs g' i')"
        using a b by auto
    qed
    show "\<forall>j<12. bl[k := ?nb] ! j \<noteq> 0 \<longrightarrow> data_block_ok ?fs' t (bl[k := ?nb] ! j)"
      unfolding nth using oldb nbok' by simp
    show "\<forall>j<12. \<forall>j'<12. j \<noteq> j' \<and> bl[k := ?nb] ! j \<noteq> 0 \<longrightarrow> bl[k := ?nb] ! j \<noteq> bl[k := ?nb] ! j'"
      unfolding nth
    proof (intro allI impI)
      fix j j' :: nat
      assume a: "j < 12" "j' < 12"
        and b: "j \<noteq> j' \<and> (if j = k then ?nb else bl ! j) \<noteq> 0"
      show "(if j = k then ?nb else bl ! j) \<noteq> (if j' = k then ?nb else bl ! j')"
        using a b oldd[rule_format, of j j'] nbnew[rule_format, of j] nbnew[rule_format, of j']
        by (auto split: if_splits)
    qed
  qed
qed


subsection \<open>One step of the write loop\<close>

lemma loop_step_arith:
  fixes written bsz size' :: u32
  assumes w: "unat written = k * unat bsz" and lt: "k * unat bsz < unat size'" and nz: "bsz \<noteq> 0"
  shows "written < size'"
    and "written div bsz = of_nat k"
    and "written mod bsz = 0"
    and "unat (of_nat k :: u32) = k"
    and "unat (chunk_len bsz 0 (size' - written)) = min (unat bsz) (unat size' - k * unat bsz)"
    and "unat (written + chunk_len bsz 0 (size' - written)) = min ((k + 1) * unat bsz) (unat size')"
proof -
  have b0: "0 < unat bsz" using nz by (simp add: unat_gt_0)
  show lt': "written < size'" using w lt by (simp add: word_less_nat_alt)
  have "k * 1 \<le> k * unat bsz" using b0 by (intro mult_le_mono2) simp
  moreover have "unat size' < 2 ^ 32" using unsigned_less[of size', where 'a=nat] by simp
  ultimately have k32: "k < 2 ^ 32" using lt by linarith
  show uk: "unat (of_nat k :: u32) = k" using k32 by (simp add: unat_of_nat take_bit_nat_eq_self)
  have "unat (written div bsz) = k" using w b0 by (simp add: unat_div)
  then show "written div bsz = of_nat k" using uk by (simp add: word_unat_eq_iff)
  have "unat (written mod bsz) = 0" using w by (simp add: unat_mod)
  then show "written mod bsz = 0" by (simp add: unat_eq_0)
  have sub: "unat (size' - written) = unat size' - k * unat bsz"
    using lt' w by (simp add: unat_sub word_less_nat_alt word_le_nat_alt)
  show c: "unat (chunk_len bsz 0 (size' - written)) = min (unat bsz) (unat size' - k * unat bsz)"
    using sub by (auto simp: chunk_len_def word_less_nat_alt)
  have "unat written + unat (chunk_len bsz 0 (size' - written)) \<le> unat size'"
    using c w lt by simp
  then have "unat written + unat (chunk_len bsz 0 (size' - written)) < 2 ^ 32"
    using unsigned_less[of size', where 'a=nat] by simp
  then have "unat (written + chunk_len bsz 0 (size' - written))
             = unat written + unat (chunk_len bsz 0 (size' - written))"
    by (simp add: unat_word_ariths)
  moreover have "(k + 1) * unat bsz = k * unat bsz + unat bsz" by simp
  ultimately show "unat (written + chunk_len bsz 0 (size' - written)) = min ((k + 1) * unat bsz) (unat size')"
    using c w lt by (simp only:)
qed

lemma blk_at_alloc_upd_other:
  assumes ok: "fs_ok fs" and g: "g < unat (num_block_groups fs)"
    and x: "\<forall>g<unat (num_block_groups fs). dev_block fs x \<noteq> dev_block fs (block_bitmap_of fs g)"
  shows "blk_at (alloc_upd fs g i) x = blk_at fs x"
proof -
  have "dev_block fs x \<noteq> dev_block fs (block_bitmap_of fs g)" using x g by blast
  then show ?thesis using ok by (simp add: alloc_upd_def blk_at_put_blk_other)
qed

lemma data_block_ok_nz: "data_block_ok fs t b \<Longrightarrow> b \<noteq> 0"
  by (simp add: data_block_ok_def blk_valid_def)

lemma write_alloc_step_ok:
  assumes ok: "fs_ok fs" and len: "length (i_block inode) = 15"
    and s: "alloc_sound fs t (i_block inode)" and k: "k < 12" and km: "P k"
    and enough: "card {j. k \<le> j \<and> j < 12 \<and> P j \<and> i_block inode ! j = 0} \<le> card (free_bits fs)"
  shows "\<exists>fs1 bl1. write_alloc_step fs inode (of_nat k) = (True, fs1, inode\<lparr>i_block := bl1\<rparr>)
           \<and> fs_ok fs1 \<and> geom_eq fs fs1 \<and> alloc_sound fs1 t bl1 \<and> length bl1 = 15
           \<and> bl1 ! k \<noteq> 0 \<and> (\<forall>j. j \<noteq> k \<longrightarrow> bl1 ! j = i_block inode ! j)
           \<and> card {j. k + 1 \<le> j \<and> j < 12 \<and> P j \<and> bl1 ! j = 0} \<le> card (free_bits fs1)
           \<and> (\<forall>x. (\<forall>g<unat (num_block_groups fs).
                       dev_block fs x \<noteq> dev_block fs (block_bitmap_of fs g))
                    \<longrightarrow> blk_at fs1 x = blk_at fs x)"
proof -
  let ?bl = "i_block inode"
  have uk: "unat (of_nat k :: u32) = k" using k by (simp add: unat_of_nat)
  have k12: "(of_nat k :: u32) < 12" using uk by (simp add: word_less_nat_alt k)
  have fin: "finite {j. k \<le> j \<and> j < 12 \<and> P j \<and> ?bl ! j = 0}" by simp
  show ?thesis
  proof (cases "?bl ! k = 0")
    case False
    have "card {j. k + 1 \<le> j \<and> j < 12 \<and> P j \<and> ?bl ! j = 0}
          \<le> card {j. k \<le> j \<and> j < 12 \<and> P j \<and> ?bl ! j = 0}"
      by (rule card_mono) auto
    then have c: "card {j. k + 1 \<le> j \<and> j < 12 \<and> P j \<and> ?bl ! j = 0} \<le> card (free_bits fs)"
      using enough by simp
    have step: "write_alloc_step fs inode (of_nat k) = (True, fs, inode\<lparr>i_block := ?bl\<rparr>)"
      using False by (simp add: write_alloc_step_def uk)
    have ge: "geom_eq fs fs" by simp
    have oth: "\<forall>j. j \<noteq> k \<longrightarrow> ?bl ! j = ?bl ! j" by simp
    have fr: "\<forall>x. (\<forall>g<unat (num_block_groups fs).
                       dev_block fs x \<noteq> dev_block fs (block_bitmap_of fs g))
                    \<longrightarrow> blk_at fs x = blk_at fs x" by simp
    show ?thesis
      by (intro exI[of _ fs] exI[of _ ?bl] conjI step ok ge s len False oth c fr)
  next
    case True
    have mem: "k \<in> {j. k \<le> j \<and> j < 12 \<and> P j \<and> ?bl ! j = 0}" using True k km by simp
    have pos: "0 < card {j. k \<le> j \<and> j < 12 \<and> P j \<and> ?bl ! j = 0}"
      using mem fin card_gt_0_iff by blast
    have "free_bits fs \<noteq> {}"
    proof
      assume "free_bits fs = {}"
      then have "card (free_bits fs) = 0" by simp
      then show False using pos enough by linarith
    qed
    then obtain g0 i0 where "free_bit fs g0 i0" by (auto simp: free_bits_def)
    then obtain g i where f: "free_bit fs g i"
      and al: "ext2_alloc_block fs = (bit_block fs g i, alloc_upd fs g i)"
      using ext2_alloc_block_cases[OF ok] by blast
    let ?fs1 = "alloc_upd fs g i" and ?nb = "bit_block fs g i"
    let ?bl1 = "?bl[k := ?nb]"
    have gi: "(g, i) \<in> free_bits fs" using f by (simp add: free_bits_def)
    have nbok: "data_block_ok fs t ?nb" using s gi unfolding alloc_sound_def by blast
    have nz: "?nb \<noteq> 0" using nbok by (rule data_block_ok_nz)
    have step: "write_alloc_step fs inode (of_nat k) = (True, ?fs1, inode\<lparr>i_block := ?bl1\<rparr>)"
      using True al nz k12 by (simp add: write_alloc_step_def uk)
    have ge: "geom_eq fs ?fs1" by simp
    have ok1: "fs_ok ?fs1" using ge ok by (rule geom_fs_ok)
    have s1: "alloc_sound ?fs1 t ?bl1"
      using ok s f k len by (intro alloc_sound_alloc_upd) simp_all
    have nth: "?bl1 ! j = (if j = k then ?nb else ?bl ! j)" for j
      using len k by (simp add: nth_list_update)
    have fb: "free_bits ?fs1 = free_bits fs - {(g, i)}" using ok f s by (rule free_bits_alloc_upd)
    have cfb: "card (free_bits ?fs1) = card (free_bits fs) - 1"
      using fb gi by simp
    let ?S = "{j. k + 1 \<le> j \<and> j < 12 \<and> P j \<and> ?bl1 ! j = 0}"
    have eq: "{j. k \<le> j \<and> j < 12 \<and> P j \<and> ?bl ! j = 0} = insert k ?S"
      using mem nz by (auto simp: nth)
    have notin: "k \<notin> ?S" by simp
    have fin2: "finite ?S" by simp
    have "card (insert k ?S) = Suc (card ?S)"
      using fin2 notin by (rule card_insert_disjoint)
    then have "card {j. k \<le> j \<and> j < 12 \<and> P j \<and> ?bl ! j = 0} = Suc (card ?S)"
      by (simp only: eq)
    then have c: "card {j. k + 1 \<le> j \<and> j < 12 \<and> P j \<and> ?bl1 ! j = 0} \<le> card (free_bits ?fs1)"
      using enough cfb by simp
    have g: "g < unat (num_block_groups fs)" using f by (simp add: free_bit_def)
    have fr: "\<forall>x. (\<forall>g<unat (num_block_groups fs).
                       dev_block fs x \<noteq> dev_block fs (block_bitmap_of fs g))
                    \<longrightarrow> blk_at ?fs1 x = blk_at fs x"
      using blk_at_alloc_upd_other[OF ok g] by blast
    have l1: "length ?bl1 = 15" using len by simp
    have nzk: "?bl1 ! k \<noteq> 0" using nz by (simp add: nth)
    have oth: "\<forall>j. j \<noteq> k \<longrightarrow> ?bl1 ! j = ?bl ! j" by (simp add: nth)
    show ?thesis
      by (intro exI[of _ ?fs1] exI[of _ ?bl1] conjI step ok1 ge s1 l1 nzk oth c fr)
  qed
qed


subsection \<open>The write loop\<close>

lemma take_wr_bytes_0:
  "length xs \<le> length buf \<Longrightarrow> take (length xs) (wr_bytes buf 0 xs) = xs"
  by (simp add: wr_bytes_def)

lemma data_block_ok_in_range: "fs_ok fs \<Longrightarrow> data_block_ok fs t b \<Longrightarrow> blk_in_range fs b"
  by (simp add: data_block_ok_def blk_valid_in_range)

lemma data_block_ok_dev_neq:
  assumes "fs_ok fs" and "blk_valid fs x" and "blk_valid fs b" and "x \<noteq> b"
  shows "dev_block fs x \<noteq> dev_block fs b"
  using blk_valid_inj[OF assms(1,2,3)] assms(4) by blast

lemma write_loop_fill:
  fixes B :: "u8 list"
  assumes "fs_ok fs" and "length (i_block inode) = 15" and "length B = unat size'"
    and "bs = unat (block_size fs)" and "unat size' \<le> 12 * bs"
    and "alloc_sound fs t (i_block inode)"
    and "unat written = min (k * bs) (unat size')"
    and "card {j. k \<le> j \<and> j < 12 \<and> j * bs < unat size' \<and> i_block inode ! j = 0}
           \<le> card (free_bits fs)"
  shows "\<exists>fs' bl'. write_loop fs inode 0 B size' written = (fs', inode\<lparr>i_block := bl'\<rparr>, size')
           \<and> geom_eq fs fs' \<and> length bl' = 15 \<and> alloc_sound fs' t bl'
           \<and> (\<forall>j<k. bl' ! j = i_block inode ! j)
           \<and> (\<forall>j. k \<le> j \<and> j * bs < unat size' \<longrightarrow>
                  bl' ! j \<noteq> 0
                  \<and> take (min bs (unat size' - j * bs)) (blk_at fs' (bl' ! j))
                      = take (min bs (unat size' - j * bs)) (drop (j * bs) B))
           \<and> (\<forall>x. blk_valid fs x
                    \<and> (\<forall>g<unat (num_block_groups fs).
                          dev_block fs x \<noteq> dev_block fs (block_bitmap_of fs g))
                    \<and> (\<forall>j. k \<le> j \<and> j * bs < unat size' \<longrightarrow> x \<noteq> bl' ! j)
                    \<longrightarrow> blk_at fs' x = blk_at fs x)"
  using assms
proof (induction k arbitrary: fs inode written rule: measure_induct_rule[where f = "\<lambda>k. 12 - k"])
  case (less k)
  note ok = less.prems(1) and len = less.prems(2) and lenB = less.prems(3) and bs = less.prems(4)
    and fit = less.prems(5) and snd = less.prems(6) and wr = less.prems(7) and enough = less.prems(8)
  let ?L = "unat size'"
  have bsz: "block_size fs \<noteq> 0" using ok by (auto simp: fs_ok_def)
  have bs0: "0 < bs" using bsz bs by (simp add: unat_gt_0)
  show ?case
  proof (cases "k * bs < ?L")
    case False
    then have "unat written = ?L" using wr by simp
    then have w: "written = size'" by (simp add: word_unat_eq_iff)
    have e: "write_loop fs inode 0 B size' written = (fs, inode\<lparr>i_block := i_block inode\<rparr>, size')"
      by (subst write_loop.simps) (simp add: w)
    have vac: "\<And>j. k \<le> j \<Longrightarrow> j * bs < ?L \<Longrightarrow> False"
    proof -
      fix j assume "k \<le> j" "j * bs < ?L"
      moreover from \<open>k \<le> j\<close> have "k * bs \<le> j * bs" by (rule mult_le_mono1)
      ultimately show False using False by linarith
    qed
    show ?thesis
      apply (rule exI[of _ fs], rule exI[of _ "i_block inode"])
      using e len snd vac by auto
  next
    case True
    have k12: "k < 12"
    proof (rule ccontr)
      assume "\<not> k < 12"
      then have "12 * bs \<le> k * bs" by (intro mult_le_mono1) simp
      then show False using True fit by linarith
    qed
    have wk: "unat written = k * unat (block_size fs)" using wr True bs by simp
    have lt: "k * unat (block_size fs) < ?L" using True bs by simp
    note ar = loop_step_arith[OF wk lt bsz]
    obtain fs1 bl1 where
      st: "write_alloc_step fs inode (of_nat k) = (True, fs1, inode\<lparr>i_block := bl1\<rparr>)"
      and ok1: "fs_ok fs1" and ge1: "geom_eq fs fs1" and s1: "alloc_sound fs1 t bl1"
      and l1: "length bl1 = 15" and nz: "bl1 ! k \<noteq> 0"
      and oth: "\<forall>j. j \<noteq> k \<longrightarrow> bl1 ! j = i_block inode ! j"
      and c1: "card {j. k + 1 \<le> j \<and> j < 12 \<and> j * bs < ?L \<and> bl1 ! j = 0} \<le> card (free_bits fs1)"
      and fr1: "\<forall>x. (\<forall>g<unat (num_block_groups fs).
                       dev_block fs x \<noteq> dev_block fs (block_bitmap_of fs g))
                    \<longrightarrow> blk_at fs1 x = blk_at fs x"
      using write_alloc_step_ok[OF ok len snd k12, of "\<lambda>j. j * bs < ?L", OF True enough] by blast
    let ?b = "bl1 ! k"
    let ?inode1 = "inode\<lparr>i_block := bl1\<rparr>"
    let ?c = "min bs (?L - k * bs)"
    let ?buf = "memcpy_local (blk_at fs1 ?b) 0 (drop (k * bs) B) ?c"
    let ?fs2 = "put_blk fs1 ?b ?buf"
    let ?w' = "written + chunk_len (block_size fs) 0 (size' - written)"
    have bs1: "block_size fs1 = block_size fs" using ge1 by (simp add: geom_eq_def)
    have bok: "data_block_ok fs1 t ?b" using s1 nz k12 unfolding alloc_sound_def by blast
    have inr: "blk_in_range fs1 ?b" using ok1 bok by (rule data_block_ok_in_range)
    have lb: "length (blk_at fs1 ?b) = bs" using length_blk_at[OF ok1 inr] bs1 bs by simp
    have lbuf: "length ?buf = bs" using lb by (simp add: memcpy_local_def)
    have cB: "length (take ?c (drop (k * bs) B)) = ?c" using lenB by simp
    have step: "write_loop fs inode 0 B size' written = write_loop ?fs2 ?inode1 0 B size' ?w'"
      apply (subst write_loop.simps)
      using ar(1) st nz k12 ok inr ar(4) ar(5) bs
      by (simp add: ar(2) ar(3) wk ext2_read_blocks_eq[OF ok1] ext2_write_blocks_eq[OF ok1]
                    word_le_nat_alt bs1 del: write_loop.simps)
    have ok2: "fs_ok ?fs2" using ok1 by simp
    have ge2: "geom_eq fs ?fs2" using ge1 geom_eq_put_blk by (rule geom_eq_trans)
    have s2: "alloc_sound ?fs2 t bl1" using ok1 s1 bok by (rule alloc_sound_put_blk)
    have fb2: "free_bits ?fs2 = free_bits fs1" using ok1 bok by (rule free_bits_put_blk)
    have w': "unat ?w' = min ((k + 1) * bs) ?L" using ar(6) bs by simp
    have c2: "card {j. k + 1 \<le> j \<and> j < 12 \<and> j * bs < ?L \<and> i_block ?inode1 ! j = 0}
              \<le> card (free_bits ?fs2)"
      using c1 fb2 by simp
    have at2: "blk_at ?fs2 ?b = ?buf"
      using ok1 inr lbuf bs1 bs by (intro blk_at_put_blk_same) simp_all
    have cont2: "take ?c (blk_at ?fs2 ?b) = take ?c (drop (k * bs) B)"
    proof -
      have "length (take ?c (drop (k * bs) B)) \<le> length (blk_at fs1 ?b)"
        unfolding cB lb by simp
      then have "take (length (take ?c (drop (k * bs) B)))
                   (wr_bytes (blk_at fs1 ?b) 0 (take ?c (drop (k * bs) B)))
                 = take ?c (drop (k * bs) B)"
        by (rule take_wr_bytes_0)
      then have "take ?c ?buf = take ?c (drop (k * bs) B)"
        unfolding cB memcpy_local_def .
      then show ?thesis by (simp only: at2)
    qed
    have m: "12 - (k + 1) < 12 - k" using k12 by simp
    have l1': "length (i_block ?inode1) = 15" using l1 by simp
    have bs2: "bs = unat (block_size ?fs2)" using bs bs1 by simp
    have s2': "alloc_sound ?fs2 t (i_block ?inode1)" using s2 by simp
    note ih = less.IH[OF m ok2 l1' lenB bs2 fit s2' w' c2]
    obtain fs' bl' where
      r: "write_loop ?fs2 ?inode1 0 B size' ?w' = (fs', ?inode1\<lparr>i_block := bl'\<rparr>, size')"
      and ge': "geom_eq ?fs2 fs'" and l': "length bl' = 15" and s': "alloc_sound fs' t bl'"
      and same': "\<forall>j<k + 1. bl' ! j = i_block ?inode1 ! j"
      and cont': "\<forall>j. k + 1 \<le> j \<and> j * bs < ?L \<longrightarrow>
                  bl' ! j \<noteq> 0
                  \<and> take (min bs (?L - j * bs)) (blk_at fs' (bl' ! j))
                      = take (min bs (?L - j * bs)) (drop (j * bs) B)"
      and fr': "\<forall>x. blk_valid ?fs2 x
                    \<and> (\<forall>g<unat (num_block_groups ?fs2).
                          dev_block ?fs2 x \<noteq> dev_block ?fs2 (block_bitmap_of ?fs2 g))
                    \<and> (\<forall>j. k + 1 \<le> j \<and> j * bs < ?L \<longrightarrow> x \<noteq> bl' ! j)
                    \<longrightarrow> blk_at fs' x = blk_at ?fs2 x"
      using ih by blast
    have res: "write_loop fs inode 0 B size' written = (fs', inode\<lparr>i_block := bl'\<rparr>, size')"
      using step r by simp
    have gef: "geom_eq fs fs'" using ge2 ge' by (rule geom_eq_trans)
    have lg: "length (block_groups fs) = unat (num_block_groups fs)"
      using ok by (simp add: fs_ok_def)
    have n2: "num_block_groups ?fs2 = num_block_groups fs" using ge2 by (simp add: geom_eq_def)
    have nbm: "(\<forall>g<unat (num_block_groups ?fs2).
                  dev_block ?fs2 x \<noteq> dev_block ?fs2 (block_bitmap_of ?fs2 g))
               = (\<forall>g<unat (num_block_groups fs).
                  dev_block fs x \<noteq> dev_block fs (block_bitmap_of fs g))" for x
      unfolding n2 geom_dev_block[OF ge2]
      using geom_bitmap_of[OF ge2] lg by auto
    have same: "\<forall>j<k. bl' ! j = i_block inode ! j"
      using same' oth by simp
    have blk: "bl' ! k = ?b" using same' by simp
    have j12: "j < 12" if "j * bs < ?L" for j
    proof (rule ccontr)
      assume "\<not> j < 12"
      then have "12 * bs \<le> j * bs" by (intro mult_le_mono1) simp
      then show False using that fit by linarith
    qed
    have dist: "?b \<noteq> bl' ! j" if "k + 1 \<le> j" "j * bs < ?L" for j
    proof -
      have d: "\<forall>j<12. \<forall>j'<12. j \<noteq> j' \<and> bl' ! j \<noteq> 0 \<longrightarrow> bl' ! j \<noteq> bl' ! j'"
        using s' unfolding alloc_sound_def by blast
      have "k \<noteq> j \<and> bl' ! k \<noteq> 0" using that(1) nz blk by simp
      then have "bl' ! k \<noteq> bl' ! j" using d[rule_format, of k j] k12 j12[OF that(2)] by blast
      then show ?thesis using blk by simp
    qed
    have bok2: "data_block_ok ?fs2 t ?b"
      using bok by (simp add: geom_data_block_ok[OF geom_eq_put_blk ok1])
    have keep: "blk_at fs' ?b = blk_at ?fs2 ?b"
    proof -
      have "blk_valid ?fs2 ?b" using bok2 by (simp add: data_block_ok_def)
      moreover have "\<forall>g<unat (num_block_groups ?fs2).
                  dev_block ?fs2 ?b \<noteq> dev_block ?fs2 (block_bitmap_of ?fs2 g)"
        using bok2 unfolding data_block_ok_def by blast
      moreover have "\<forall>j. k + 1 \<le> j \<and> j * bs < ?L \<longrightarrow> ?b \<noteq> bl' ! j"
        using dist by blast
      ultimately show ?thesis using fr' by blast
    qed
    have cont: "\<forall>j. k \<le> j \<and> j * bs < ?L \<longrightarrow>
                  bl' ! j \<noteq> 0
                  \<and> take (min bs (?L - j * bs)) (blk_at fs' (bl' ! j))
                      = take (min bs (?L - j * bs)) (drop (j * bs) B)"
    proof (intro allI impI)
      fix j assume a: "k \<le> j \<and> j * bs < ?L"
      show "bl' ! j \<noteq> 0
                  \<and> take (min bs (?L - j * bs)) (blk_at fs' (bl' ! j))
                      = take (min bs (?L - j * bs)) (drop (j * bs) B)"
      proof (cases "j = k")
        case True
        then show ?thesis using nz cont2 by (simp add: blk keep)
      next
        case False
        then have "k + 1 \<le> j \<and> j * bs < ?L" using a by simp
        then show ?thesis using cont' by blast
      qed
    qed
    have frame: "\<forall>x. blk_valid fs x
                    \<and> (\<forall>g<unat (num_block_groups fs).
                          dev_block fs x \<noteq> dev_block fs (block_bitmap_of fs g))
                    \<and> (\<forall>j. k \<le> j \<and> j * bs < ?L \<longrightarrow> x \<noteq> bl' ! j)
                    \<longrightarrow> blk_at fs' x = blk_at fs x"
    proof (intro allI impI, elim conjE)
      fix x
      assume v: "blk_valid fs x"
        and nb: "\<forall>g<unat (num_block_groups fs).
                          dev_block fs x \<noteq> dev_block fs (block_bitmap_of fs g)"
        and nj: "\<forall>j. k \<le> j \<and> j * bs < ?L \<longrightarrow> x \<noteq> bl' ! j"
      have xb: "x \<noteq> ?b" using nj True blk by auto
      have v2: "blk_valid ?fs2 x" using v by (simp add: geom_blk_valid[OF ge2])
      have nb2: "\<forall>g<unat (num_block_groups ?fs2).
                  dev_block ?fs2 x \<noteq> dev_block ?fs2 (block_bitmap_of ?fs2 g)"
        using nb by (simp only: nbm)
      have nj2: "\<forall>j. k + 1 \<le> j \<and> j * bs < ?L \<longrightarrow> x \<noteq> bl' ! j"
        using nj by auto
      have e1: "blk_at fs' x = blk_at ?fs2 x" using fr' v2 nb2 nj2 by blast
      have v1: "blk_valid fs1 x" using v by (simp add: geom_blk_valid[OF ge1])
      have vb: "blk_valid fs1 ?b" using bok by (simp add: data_block_ok_def)
      have "dev_block fs1 x \<noteq> dev_block fs1 ?b"
        using ok1 v1 vb xb by (rule data_block_ok_dev_neq)
      then have e2: "blk_at ?fs2 x = blk_at fs1 x"
        using ok1 by (intro blk_at_put_blk_other)
      have e3: "blk_at fs1 x = blk_at fs x" using fr1 nb by blast
      show "blk_at fs' x = blk_at fs x" using e1 e2 e3 by simp
    qed
    show ?thesis
      by (intro exI[of _ fs'] exI[of _ bl'] conjI res gef l' s' same cont frame)
  qed
qed


subsection \<open>The read loop\<close>

lemma read_file_loop_ok:
  fixes B :: "u8 list"
  assumes "fs_ok fs" and "bs = unat (block_size fs)" and "length B = unat size'"
    and "unat size' \<le> 12 * bs"
    and "unat n = min (k * bs) (unat size')"
    and "\<forall>j. j * bs < unat size' \<longrightarrow>
            i_block inode ! j \<noteq> 0 \<and> blk_in_range fs (i_block inode ! j)
            \<and> take (min bs (unat size' - j * bs)) (blk_at fs (i_block inode ! j))
                = take (min bs (unat size' - j * bs)) (drop (j * bs) B)"
  shows "read_file_loop fs inode 0 size' n out = Some (out @ drop (unat n) B)"
  using assms
proof (induction k arbitrary: n out rule: measure_induct_rule[where f = "\<lambda>k. 12 - k"])
  case (less k)
  note ok = less.prems(1) and bs = less.prems(2) and lenB = less.prems(3) and fit = less.prems(4)
    and rd = less.prems(5) and cont = less.prems(6)
  let ?L = "unat size'"
  have bsz: "block_size fs \<noteq> 0" using ok by (auto simp: fs_ok_def)
  show ?case
  proof (cases "k * bs < ?L")
    case False
    then have u: "unat n = ?L" using rd by simp
    then have w: "n = size'" by (simp add: word_unat_eq_iff)
    show ?thesis
      by (subst read_file_loop.simps) (simp add: w lenB)
  next
    case True
    have k12: "k < 12"
    proof (rule ccontr)
      assume "\<not> k < 12"
      then have "12 * bs \<le> k * bs" by (intro mult_le_mono1) simp
      then show False using True fit by linarith
    qed
    have wk: "unat n = k * unat (block_size fs)" using rd True bs by simp
    have lt: "k * unat (block_size fs) < ?L" using True bs by simp
    note ar = loop_step_arith[OF wk lt bsz]
    let ?b = "i_block inode ! k"
    let ?c = "min bs (?L - k * bs)"
    let ?n' = "n + chunk_len (block_size fs) 0 (size' - n)"
    have b: "?b \<noteq> 0" "blk_in_range fs ?b"
      "take ?c (blk_at fs ?b) = take ?c (drop (k * bs) B)"
      using cont True by blast+
    have k12w: "(of_nat k :: u32) < 12" using ar(4) k12 by (simp add: word_less_nat_alt)
    have rdb: "ext2_read_data_block fs inode (of_nat k) = Some (blk_at fs ?b)"
      using k12w b(1,2) by (simp add: ext2_read_data_block_def ar(4) ext2_read_blocks_eq[OF ok])
    have step: "read_file_loop fs inode 0 size' n out
                = read_file_loop fs inode 0 size' ?n' (out @ take ?c (drop (k * bs) B))"
      apply (subst read_file_loop.simps)
      using ar(1) ok ar(5) bs b(3)
      by (simp add: ar(2) ar(3) rdb rd_bytes_def del: read_file_loop.simps)
    have m: "12 - (k + 1) < 12 - k" using k12 by simp
    have n': "unat ?n' = min ((k + 1) * bs) ?L" using ar(6) bs by simp
    have ih: "read_file_loop fs inode 0 size' ?n' (out @ take ?c (drop (k * bs) B))
              = Some ((out @ take ?c (drop (k * bs) B)) @ drop (unat ?n') B)"
      by (rule less.IH[OF m ok bs lenB fit n' cont])
    have "(k + 1) * bs = k * bs + bs" by simp
    then have "unat ?n' = k * bs + ?c" using n' True by (simp only:)
    then have "drop (unat ?n') B = drop ?c (drop (k * bs) B)"
      by (simp only: drop_drop add.commute)
    then have "take ?c (drop (k * bs) B) @ drop (unat ?n') B = drop (k * bs) B"
      by (simp only: append_take_drop_id)
    then show ?thesis using step ih wk bs by simp
  qed
qed


subsection \<open>Write, seek, read\<close>

lemma uint_small: "unat (w :: u32) < 2 ^ 31 \<Longrightarrow> uint w < 2 ^ 31"
proof -
  assume a: "unat w < 2 ^ 31"
  have "int (unat w) < int (2 ^ 31)" using a by (simp only: of_nat_less_iff)
  then show ?thesis by simp
qed
lemma sint_small: "unat (w :: u32) < 2 ^ 31 \<Longrightarrow> sint w = int (unat w)"
proof -
  assume a: "unat w < 2 ^ 31"
  have "sint w = signed_take_bit 31 (uint w)"
    by (simp add: sint_uint)
  also have "\<dots> = uint w"
  proof (rule signed_take_bit_int_eq_self)
    have "0 \<le> uint w" by simp
    moreover have "- (2 ^ 31) \<le> (0::int)" by simp
    ultimately show "- (2 ^ 31) \<le> uint w" by (rule order_trans[rotated])
    show "uint w < 2 ^ 31" using uint_small[OF a] .
  qed
  finally show ?thesis by simp
qed

lemma write_seek_read:
  fixes B :: "u8 list"
  assumes ok: "fs_ok fs" and op: "file_is_open file \<noteq> 0" and pos: "file_position file = 0"
    and ri: "ext2_read_inode fs (file_inode file) = Some inode"
    and lenB: "length B = unat size'" and fit: "unat size' \<le> 12 * unat (block_size fs)"
    and snd: "alloc_sound fs (inode_block fs (file_inode file)) (i_block inode)"
    and enough: "card {j. j * unat (block_size fs) < unat size' \<and> i_block inode ! j = 0}
                   \<le> card (free_bits fs)"
  shows "\<exists>fs1 file1 gfs3 file3.
           vfs_write (Some fs) file B size' ticks = (int (length B), Some fs1, file1)
           \<and> file_size file1 = max (i_size inode) size'
           \<and> map_option i_size (ext2_read_inode fs1 (file_inode file)) = Some (max (i_size inode) size')
           \<and> vfs_seek file1 0 = (0, file1\<lparr>file_position := 0\<rparr>)
           \<and> vfs_read (Some fs1) (file1\<lparr>file_position := 0\<rparr>) size' ticks'
               = (int (length B), B, gfs3, file3)"
proof -
  let ?n = "file_inode file" and ?bs = "unat (block_size fs)" and ?L = "unat size'"
  let ?t = "inode_block fs ?n"
  have iv: "inode_valid fs ?n" and io: "inode_ok inode"
    using ext2_read_inode_valid[OF ok ri] by simp_all
  have len15: "length (i_block inode) = 15" using io by (simp add: inode_ok_def)
  have bsle: "?bs \<le> 4096" and bs0: "0 < ?bs" using ok by (auto simp: fs_ok_def)
  have j12: "j < 12" if "j * ?bs < ?L" for j
  proof (rule ccontr)
    assume "\<not> j < 12"
    then have "12 * ?bs \<le> j * ?bs" by (intro mult_le_mono1) simp
    then show False using that fit by linarith
  qed
  have "{j. 0 \<le> j \<and> j < 12 \<and> j * ?bs < ?L \<and> i_block inode ! j = 0}
        = {j. j * ?bs < ?L \<and> i_block inode ! j = 0}"
    using j12 by auto
  then have enough': "card {j. 0 \<le> j \<and> j < 12 \<and> j * ?bs < ?L \<and> i_block inode ! j = 0}
                      \<le> card (free_bits fs)"
    using enough by simp
  have w0: "unat (0 :: u32) = min (0 * ?bs) ?L" by simp
  obtain fs1 bl' where
    wl: "write_loop fs inode 0 B size' 0 = (fs1, inode\<lparr>i_block := bl'\<rparr>, size')"
    and ge: "geom_eq fs fs1" and l': "length bl' = 15" and s': "alloc_sound fs1 ?t bl'"
    and cont: "\<forall>j. 0 \<le> j \<and> j * ?bs < ?L \<longrightarrow>
                  bl' ! j \<noteq> 0
                  \<and> take (min ?bs (?L - j * ?bs)) (blk_at fs1 (bl' ! j))
                      = take (min ?bs (?L - j * ?bs)) (drop (j * ?bs) B)"
    using write_loop_fill[OF ok len15 lenB refl fit snd w0 enough'] by blast
  let ?inode1 = "inode\<lparr>i_block := bl'\<rparr>"
  let ?sz = "max (i_size inode) size'"
  define inode3 where
    "inode3 = (if i_size inode < size' then inode\<lparr>i_block := bl', i_size := size'\<rparr>
               else inode\<lparr>i_block := bl'\<rparr>)\<lparr>i_mtime := ticks div 100\<rparr>"
  have ib3: "i_block inode3 = bl'" and isz3: "i_size inode3 = ?sz"
    by (auto simp: inode3_def max_def)
  let ?file1 = "file\<lparr>file_position := size', file_size := ?sz\<rparr>"
  have ok1: "fs_ok fs1" using ge ok by (rule geom_fs_ok)
  have iv1: "inode_valid fs1 ?n" using iv by (simp add: geom_inode_valid[OF ge ok])
  have grp: "(?n - 1) div inodes_per_group fs < num_block_groups fs"
    using iv by (simp add: inode_valid_def)
  have t1: "inode_block fs1 ?n = ?t" using ge ok grp by (rule geom_inode_block)
  have io3: "inode_ok inode3" using io l' by (simp add: inode_ok_def inode3_def)
  obtain r fsW where wi: "ext2_write_inode fs1 ?n inode3 = (r, fsW)" by (cases "ext2_write_inode fs1 ?n inode3")
  have raw: "r = 0 \<and> fs_ok fsW \<and> ext2_read_inode fsW ?n = Some inode3"
    using ok1 iv1 io3 wi by (rule ext2_read_after_write_inode)
  have fsW: "fsW = put_blk fs1 ?t (wr_bytes (blk_at fs1 ?t) (inode_slot fs1 ?n * 128)
                                      (take 128 (encode_inode inode3)))"
    using wi iv1 by (simp add: ext2_write_inode_eq[OF ok1] t1)
  have ub: "?L < 2 ^ 31" using fit bsle by simp
  have si: "sint size' = int (length B)" using sint_small[OF ub] lenB by simp
  have vw: "vfs_write (Some fs) file B size' ticks = (int (length B), Some fsW, ?file1)"
    using op ri wl wi
    by (auto simp: vfs_write_def pos Let_def si inode3_def max_def simp del: write_loop.simps)
  have fsz: "file_size ?file1 = ?sz" by simp
  have rsz: "map_option i_size (ext2_read_inode fsW ?n) = Some ?sz" using raw by (simp add: isz3)
  have sk: "vfs_seek ?file1 0 = (0, ?file1\<lparr>file_position := 0\<rparr>)"
    using op by (simp add: vfs_seek_def)
  let ?file2 = "?file1\<lparr>file_position := 0\<rparr>"
  have bsW: "?bs = unat (block_size fsW)" using ge by (simp add: fsW geom_eq_def)
  have contW: "\<forall>j. j * ?bs < ?L \<longrightarrow>
            i_block inode3 ! j \<noteq> 0 \<and> blk_in_range fsW (i_block inode3 ! j)
            \<and> take (min ?bs (?L - j * ?bs)) (blk_at fsW (i_block inode3 ! j))
                = take (min ?bs (?L - j * ?bs)) (drop (j * ?bs) B)"
  proof (intro allI impI)
    fix j assume a: "j * ?bs < ?L"
    have c: "bl' ! j \<noteq> 0" "take (min ?bs (?L - j * ?bs)) (blk_at fs1 (bl' ! j))
                      = take (min ?bs (?L - j * ?bs)) (drop (j * ?bs) B)"
      using cont a by simp_all
    have "\<forall>j<12. bl' ! j \<noteq> 0 \<longrightarrow> data_block_ok fs1 ?t (bl' ! j)"
      using s' unfolding alloc_sound_def by blast
    then have d: "data_block_ok fs1 ?t (bl' ! j)" using j12[OF a] c(1) by blast
    have inr: "blk_in_range fs1 (bl' ! j)" using ok1 d by (rule data_block_ok_in_range)
    have "dev_block fs1 (bl' ! j) \<noteq> dev_block fs1 ?t" using d by (simp add: data_block_ok_def)
    then have "blk_at fsW (bl' ! j) = blk_at fs1 (bl' ! j)"
      unfolding fsW using ok1 by (intro blk_at_put_blk_other)
    then show "i_block inode3 ! j \<noteq> 0 \<and> blk_in_range fsW (i_block inode3 ! j)
            \<and> take (min ?bs (?L - j * ?bs)) (blk_at fsW (i_block inode3 ! j))
                = take (min ?bs (?L - j * ?bs)) (drop (j * ?bs) B)"
      using c inr by (simp add: fsW ib3)
  qed
  have okW: "fs_ok fsW" using raw by simp
  have fitW: "?L \<le> 12 * ?bs" using fit .
  have rl: "read_file_loop fsW inode3 0 size' 0 [] = Some ([] @ drop (unat (0::u32)) B)"
    by (rule read_file_loop_ok[OF okW bsW lenB fitW w0 contW])
  have le: "size' \<le> ?sz" by simp
  have rf: "ext2_read_file fsW inode3 0 size' = (if ?sz = 0 then (0, []) else (int (length B), B))"
    using rl le by (simp add: ext2_read_file_def si not_less isz3 del: read_file_loop.simps)
  have B0: "?sz = 0 \<Longrightarrow> B = []"
  proof -
    assume "?sz = 0"
    then have "size' = 0" using le by simp
    then show "B = []" using lenB by simp
  qed
  have "\<exists>gfs3 file3. vfs_read (Some fsW) ?file2 size' ticks' = (int (length B), B, gfs3, file3)"
    using op raw B0 by (auto simp: vfs_read_def rf)
  then obtain gfs3 file3 where
    vr: "vfs_read (Some fsW) ?file2 size' ticks' = (int (length B), B, gfs3, file3)" by blast
  show ?thesis
    by (intro exI[of _ fsW] exI[of _ ?file1] exI[of _ gfs3] exI[of _ file3] conjI vw fsz rsz sk vr)
qed


subsection \<open>The test image\<close>

lemma rd8_block_bitmap0:
  "rd8 block_bitmap0 q = (if q = 0 then 0xFF else if q = 1 then 0x03 else if q = 2 then 0x80
                          else if q < 1024 then 0xFF else 0)"
proof -
  consider "q = 0" | "q = 1" | "q = 2" | "3 \<le> q"  by linarith
  then show ?thesis
  proof cases
    case 4
    have a: "rd8 ([0xFF, 0x03, 0x80] @ replicate 1021 0xFF) q
             = rd8 (replicate 1021 0xFF) (q - length [0xFF, 0x03, 0x80 :: u8])"
      using 4 by (intro rd8_skip_le) simp
    have b: "length [0xFF, 0x03, 0x80 :: u8] = 3" by simp
    have d: "q - 3 < 1021 \<longleftrightarrow> q < 1024" using 4 by linarith
    have c: "rd8 (replicate 1021 (0xFF :: u8)) (q - 3) = (if q < 1024 then 0xFF else 0)"
      by (simp add: rd8_def d)
    have "rd8 block_bitmap0 q = (if q < 1024 then 0xFF else 0)"
      unfolding block_bitmap0_def a b c ..
    then show ?thesis using 4 by simp
  qed (simp_all add: block_bitmap0_def rd8_def)
qed

lemma bitmap0_test:
  assumes "i < 8192"
  shows "bitmap_test block_bitmap0 i \<longleftrightarrow> i < 10 \<or> 23 \<le> i"
proof -
  let ?q = "i div 8" and ?r = "i mod 8"
  have i: "i = 8 * ?q + ?r" by simp
  have q: "?q < 1024" using assms by simp
  have "?r < 8" by simp
  then have r: "?r = 0 \<or> ?r = 1 \<or> ?r = 2 \<or> ?r = 3 \<or> ?r = 4 \<or> ?r = 5 \<or> ?r = 6 \<or> ?r = 7"
    by linarith
  consider "?q = 0" | "?q = 1" | "?q = 2" | "3 \<le> ?q" by linarith
  then show ?thesis
  proof cases
    case 1
    have "bit (0xFF :: u8) ?r" using r by (elim disjE) simp_all
    moreover have "i < 10" using i 1 by linarith
    ultimately show ?thesis using 1 by (simp add: bitmap_test_bit rd8_block_bitmap0)
  next
    case 2
    have "bit (0x03 :: u8) ?r \<longleftrightarrow> ?r < 2" using r by (elim disjE) simp_all
    moreover have "(i < 10 \<or> 23 \<le> i) \<longleftrightarrow> ?r < 2" using i 2 by linarith
    ultimately show ?thesis using 2 by (simp add: bitmap_test_bit rd8_block_bitmap0)
  next
    case 3
    have "bit (0x80 :: u8) ?r \<longleftrightarrow> ?r = 7" using r by (elim disjE) simp_all
    moreover have "(i < 10 \<or> 23 \<le> i) \<longleftrightarrow> ?r = 7" using i 3 \<open>?r < 8\<close> by linarith
    ultimately show ?thesis using 3 by (simp add: bitmap_test_bit rd8_block_bitmap0)
  next
    case 4
    have "bit (0xFF :: u8) ?r" using r by (elim disjE) simp_all
    moreover have "23 \<le> i" using i 4 by linarith
    ultimately show ?thesis using 4 q by (simp add: bitmap_test_bit rd8_block_bitmap0)
  qed
qed

lemma free_bit_fs0: "free_bit fs0 g i \<longleftrightarrow> g = 0 \<and> 10 \<le> i \<and> i < 23"
proof -
  have "blk_at fs0 3 = block_bitmap0"
    unfolding fs0_def by (subst blk_at_mk_fs) simp_all
  then show ?thesis
    using bitmap0_test[of i]
    by (auto simp: free_bit_def block_bitmap_of_def fs0_def)
qed

lemma free_bits_fs0: "free_bits fs0 = {0} \<times> {10..<23}"
  by (auto simp: free_bits_def free_bit_fs0)

lemma card_free_bits_fs0: "card (free_bits fs0) = 13"
  by (simp add: free_bits_fs0)

lemma inode_block_fs0_12: "inode_block fs0 12 = 6"
  by (simp add: inode_block_def fs0_def)

lemma bit_block_fs0: "i < 23 \<Longrightarrow> unat (bit_block fs0 0 i) = i + 1"
  by (simp add: bit_block_def fs0_def test_sb_def unat_word_ariths unat_of_nat)

lemma data_block_ok_fs0:
  assumes "10 \<le> unat b" and "unat b \<le> 23"
  shows "data_block_ok fs0 6 b"
proof -
  have nz: "b \<noteq> 0" using assms(1) by auto
  have u: "unat (b * 2) = 2 * unat b" using assms(2) by (simp add: unat_word_ariths)
  have "b * 2 \<noteq> 12" "b * 2 \<noteq> 6"
    using u assms(1) by (auto simp: word_unat_eq_iff)
  then show ?thesis
    using nz assms(2)
    by (simp add: data_block_ok_def blk_valid_def fs0_def block_bitmap_of_def)
qed

lemma i_block_x: "j < 15 \<Longrightarrow> i_block file_inode0 ! j = (if j = 0 then 10 else 0)"
  by (simp add: file_inode0_def mk_inode_def nth_Cons')

lemma alloc_sound_fs0: "alloc_sound fs0 (inode_block fs0 12) (i_block file_inode0)"
  unfolding alloc_sound_def inode_block_fs0_12
proof (intro conjI)
  show "unat (blocks_per_group fs0) \<le> 8 * unat (block_size fs0)" by (simp add: fs0_def)
  show "\<forall>g<unat (num_block_groups fs0). \<forall>g'<unat (num_block_groups fs0). g \<noteq> g' \<longrightarrow>
          dev_block fs0 (block_bitmap_of fs0 g) \<noteq> dev_block fs0 (block_bitmap_of fs0 g')"
    by (simp add: fs0_def)
  show "inj_on (\<lambda>(g, i). bit_block fs0 g i) (free_bits fs0)"
  proof (rule inj_onI, clarify)
    fix g i g' i'
    assume a: "(g, i) \<in> free_bits fs0" "(g', i') \<in> free_bits fs0"
      and e: "bit_block fs0 g i = bit_block fs0 g' i'"
    have g: "g = 0" "g' = 0" "i < 23" "i' < 23" using a by (auto simp: free_bits_fs0)
    have "unat (bit_block fs0 0 i) = unat (bit_block fs0 0 i')" using e g(1,2) by (simp only:)
    then have "i + 1 = i' + 1"
      by (simp only: bit_block_fs0[OF g(3)] bit_block_fs0[OF g(4)])
    then show "g = g' \<and> i = i'" using g by simp
  qed
  show "\<forall>(g, i)\<in>free_bits fs0. data_block_ok fs0 6 (bit_block fs0 g i)
          \<and> (\<forall>j<12. i_block file_inode0 ! j \<noteq> bit_block fs0 g i)"
  proof (intro ballI, clarify)
    fix g i assume "(g, i) \<in> free_bits fs0"
    then have g: "g = 0" "10 \<le> i" "i < 23" by (auto simp: free_bits_fs0)
    have u: "unat (bit_block fs0 0 i) = i + 1" using g(3) by (rule bit_block_fs0)
    have d: "data_block_ok fs0 6 (bit_block fs0 0 i)"
      using g u by (intro data_block_ok_fs0) simp_all
    have "bit_block fs0 0 i \<noteq> 10 \<and> bit_block fs0 0 i \<noteq> 0"
      using u g(2) by (auto simp: word_unat_eq_iff)
    then show "data_block_ok fs0 6 (bit_block fs0 g i)
          \<and> (\<forall>j<12. i_block file_inode0 ! j \<noteq> bit_block fs0 g i)"
      using d g(1) by (auto simp: i_block_x)
  qed
  show "\<forall>j<12. i_block file_inode0 ! j \<noteq> 0 \<longrightarrow> data_block_ok fs0 6 (i_block file_inode0 ! j)"
    using data_block_ok_fs0[of 10] by (auto simp: i_block_x)
  show "\<forall>j<12. \<forall>j'<12. j \<noteq> j' \<and> i_block file_inode0 ! j \<noteq> 0
          \<longrightarrow> i_block file_inode0 ! j \<noteq> i_block file_inode0 ! j'"
    by (auto simp: i_block_x)
qed


lemma handle_x_inode: "ext2_read_inode fs0 (file_inode handle_x) = Some file_inode0"
  by (simp add: handle_x_def read_x)

lemma alloc_sound_x:
  "alloc_sound fs0 (inode_block fs0 (file_inode handle_x)) (i_block file_inode0)"
  using alloc_sound_fs0 by (simp add: handle_x_def)

lemma enough_fs0:
  assumes "unat n \<le> 13 * 1024"
  shows "card {j. j * unat (block_size fs0) < unat (n :: u32) \<and> i_block file_inode0 ! j = 0}
         \<le> card (free_bits fs0)"
proof -
  have "{j. j * unat (block_size fs0) < unat n \<and> i_block file_inode0 ! j = 0} \<subseteq> {..<13}"
    using assms by (auto simp: fs0_def)
  then have "card {j. j * unat (block_size fs0) < unat n \<and> i_block file_inode0 ! j = 0}
             \<le> card {..<13::nat}"
    by (intro card_mono) simp_all
  then show ?thesis by (simp add: card_free_bits_fs0)
qed

text \<open>
  C1, amended. On a well-formed filesystem, through an open handle at position 0 on a file
  whose inode is readable, with a byte string \<open>B\<close> of \<open>size\<close> bytes, at most 12 blocks, a
  block bitmap that is sound for the file and at least as many free bits as direct slots of
  the file that the write has to fill: \<open>vfs_write\<close> returns \<open>|B|\<close>, \<open>vfs_seek\<close> to 0 returns 0,
  and \<open>vfs_read\<close> of \<open>|B|\<close> bytes returns \<open>|B|\<close> and the bytes of \<open>B\<close>. The size the handle and
  the on-disk inode report is the larger of the old size and \<open>|B|\<close>: \<open>vfs_write\<close> never
  shrinks a file.
\<close>

theorem vfs_write_seek_read:
  fixes B :: "u8 list"
  assumes "fs_ok fs" and "file_is_open file \<noteq> 0" and "file_position file = 0"
    and "ext2_read_inode fs (file_inode file) = Some inode"
    and "length B = unat size'" and "unat size' \<le> 12 * unat (block_size fs)"
    and "alloc_sound fs (inode_block fs (file_inode file)) (i_block inode)"
    and "card {j. j * unat (block_size fs) < unat size' \<and> i_block inode ! j = 0}
           \<le> card (free_bits fs)"
  shows "case vfs_write (Some fs) file B size' ticks of
           (r1, gfs1, file1) \<Rightarrow>
             (case vfs_seek file1 0 of
                (r2, file2) \<Rightarrow>
                  (case vfs_read gfs1 file2 size' ticks' of
                     (r3, out, gfs3, file3) \<Rightarrow>
                       r1 = int (length B) \<and> r2 = 0 \<and> r3 = int (length B) \<and> out = B
                       \<and> file_size file1 = max (i_size inode) size'
                       \<and> (\<exists>fs1. gfs1 = Some fs1
                             \<and> map_option i_size (ext2_read_inode fs1 (file_inode file))
                                 = Some (max (i_size inode) size'))))"
proof -
  obtain fs1 file1 gfs3 file3 where
    "vfs_write (Some fs) file B size' ticks = (int (length B), Some fs1, file1)"
    "file_size file1 = max (i_size inode) size'"
    "map_option i_size (ext2_read_inode fs1 (file_inode file)) = Some (max (i_size inode) size')"
    "vfs_seek file1 0 = (0, file1\<lparr>file_position := 0\<rparr>)"
    "vfs_read (Some fs1) (file1\<lparr>file_position := 0\<rparr>) size' ticks'
               = (int (length B), B, gfs3, file3)"
    using write_seek_read[OF assms, where ticks = ticks and ticks' = ticks'] by blast
  then show ?thesis by simp
qed

text \<open>
  On the test image: 1030 bytes written to \<open>/x\<close> (5 bytes, one block) fill its block and a
  newly allocated one.
\<close>

theorem vfs_write_seek_read_witness:
  "case vfs_write (Some fs0) handle_x (replicate 1030 0x41) 1030 700 of
     (r1, gfs1, file1) \<Rightarrow>
       (case vfs_seek file1 0 of
          (r2, file2) \<Rightarrow>
            (case vfs_read gfs1 file2 1030 800 of
               (r3, out, gfs3, file3) \<Rightarrow>
                 r1 = 1030 \<and> r2 = 0 \<and> r3 = 1030 \<and> out = replicate 1030 0x41
                 \<and> file_size file1 = 1030))"
proof -
  have a: "file_is_open handle_x \<noteq> 0" "file_position handle_x = 0"
    by (simp_all add: handle_x_def)
  have b: "length (replicate 1030 (0x41 :: u8)) = unat (1030 :: u32)"
    "unat (1030 :: u32) \<le> 12 * unat (block_size fs0)"
    by (simp_all add: fs0_def)
  have c: "max (i_size file_inode0) 1030 = 1030"
    by (simp add: file_inode0_def mk_inode_def)
  have e: "card {j. j * unat (block_size fs0) < unat (1030 :: u32) \<and> i_block file_inode0 ! j = 0}
           \<le> card (free_bits fs0)"
    by (rule enough_fs0) simp
  show ?thesis
    using vfs_write_seek_read[OF fs_ok_fs0 a handle_x_inode b alloc_sound_x e,
                              where ticks = 700 and ticks' = 800]
    by (auto simp: c split: prod.splits)
qed

text \<open>
  C1 as stated fails on a file that is longer than \<open>B\<close>: writing the three bytes "abc" at
  position 0 of the five-byte file \<open>/x\<close> and reading three bytes back gives "abc", and the
  reported size is still 5, not 3.
\<close>

theorem vfs_write_keeps_longer_size:
  "case vfs_write (Some fs0) handle_x [0x61, 0x62, 0x63] 3 700 of
     (r1, gfs1, file1) \<Rightarrow>
       (case vfs_seek file1 0 of
          (r2, file2) \<Rightarrow>
            (case vfs_read gfs1 file2 3 800 of
               (r3, out, gfs3, file3) \<Rightarrow>
                 r1 = 3 \<and> r2 = 0 \<and> r3 = 3 \<and> out = [0x61, 0x62, 0x63]
                 \<and> file_size file1 = 5 \<and> file_size file1 \<noteq> 3
                 \<and> (\<exists>fs1. gfs1 = Some fs1
                       \<and> map_option i_size (ext2_read_inode fs1 12) = Some 5)))"
proof -
  have a: "file_is_open handle_x \<noteq> 0" "file_position handle_x = 0"
    by (simp_all add: handle_x_def)
  have b: "length [0x61, 0x62, 0x63 :: u8] = unat (3 :: u32)"
    "unat (3 :: u32) \<le> 12 * unat (block_size fs0)"
    by (simp_all add: fs0_def)
  have c: "max (i_size file_inode0) 3 = 5"
    by (simp add: file_inode0_def mk_inode_def)
  have e: "card {j. j * unat (block_size fs0) < unat (3 :: u32) \<and> i_block file_inode0 ! j = 0}
           \<le> card (free_bits fs0)"
    by (rule enough_fs0) simp
  obtain fs1 file1 gfs3 file3 where
    "vfs_write (Some fs0) handle_x [0x61, 0x62, 0x63] 3 700 = (int (length [0x61, 0x62, 0x63 :: u8]), Some fs1, file1)"
    "file_size file1 = max (i_size file_inode0) 3"
    "map_option i_size (ext2_read_inode fs1 (file_inode handle_x)) = Some (max (i_size file_inode0) 3)"
    "vfs_seek file1 0 = (0, file1\<lparr>file_position := 0\<rparr>)"
    "vfs_read (Some fs1) (file1\<lparr>file_position := 0\<rparr>) 3 800
               = (int (length [0x61, 0x62, 0x63 :: u8]), [0x61, 0x62, 0x63], gfs3, file3)"
    using write_seek_read[OF fs_ok_fs0 a handle_x_inode b alloc_sound_x e,
                          where ticks = 700 and ticks' = 800] by blast
  then show ?thesis by (simp add: c handle_x_def)
qed


end
